theory Spec2Isabelle
  imports Main "HOL-Library.Sublist"
begin

section \<open>The command queue of the Roblox Studio MCP bridge\<close>

text \<open>
  This theory embeds the class \<open>CommandQueue\<close> of \<^verbatim>\<open>src/command-queue.ts\<close> together with
  the interfaces of \<^verbatim>\<open>src/types.ts\<close> that it uses.

  Conventions of the embedding:
  \<^item> Timestamps and durations (\<open>Date.now()\<close>, \<open>commandTimeoutMs\<close>, \<open>heartbeatTimeoutMs\<close>) are
    integers of type \<open>int\<close>: milliseconds, on which the arithmetic of JavaScript numbers is
    exact. Every reading of the clock is an explicit argument of the operation that reads it.
  \<^item> The value returned by \<open>uuidv4()\<close> is an explicit argument of \<open>enqueue\<close>.
  \<^item> Command parameters (\<open>Record<string, unknown>\<close>) and result data (\<open>unknown\<close>) are never
    inspected by the queue; they are the type parameters \<open>'p\<close> and \<open>'d\<close>. An optional field
    is an \<open>option\<close>, \<open>undefined\<close> being \<open>None\<close>.
  \<^item> The two callbacks \<open>resolve\<close> and \<open>reject\<close> stored in a \<open>PendingCommand\<close> are the
    resolving functions of the promise created by \<open>enqueue\<close>. A promise is a natural number
    (its allocation index); the command stores that number, and the queue state records for
    each promise the calls made to its resolving functions, in order.
  \<^item> Field names shared by several interfaces, and \<open>id\<close>, carry a prefix.
\<close>

subsection \<open>Data model (\<^verbatim>\<open>types.ts\<close>)\<close>

record 'p PendingCommand =
  cmd_id :: string
  cmd_type :: string
  cmd_params :: 'p
  cmd_promise :: nat
  createdAt :: int

record 'd CommandResult =
  result_id :: string
  success :: bool
  data :: "'d option"
  error :: "string option"

record 'p SerializedCommand =
  ser_id :: string
  ser_type :: string
  ser_params :: 'p

record ConnectionState =
  connected :: bool
  lastHeartbeat :: int
  pluginVersion :: "string option"
  studioSessionId :: "string option"

record QueueConfig =
  commandTimeoutMs :: int
  heartbeatTimeoutMs :: int

text \<open>A JavaScript \<open>Error\<close> carries its message.\<close>

datatype JsError = Error string

text \<open>One call of a resolving function of a promise: \<open>resolve(result)\<close> or \<open>reject(error)\<close>.\<close>

datatype 'd Settlement = Resolved "'d CommandResult" | Rejected JsError

subsection \<open>JavaScript \<open>Map\<close> with insertion order\<close>

text \<open>
  \<open>Map.set\<close> replaces the value of a key that is present, in place, and appends a new
  entry otherwise; \<open>Map.delete\<close> removes the entry of a key; \<open>Map.get\<close> is \<open>map_of\<close>.
\<close>

fun map_set :: "'k \<Rightarrow> 'v \<Rightarrow> ('k \<times> 'v) list \<Rightarrow> ('k \<times> 'v) list" where
  "map_set k v [] = [(k, v)]"
| "map_set k v (e # es) = (if fst e = k then (k, v) # es else e # map_set k v es)"

definition map_delete :: "'k \<Rightarrow> ('k \<times> 'v) list \<Rightarrow> ('k \<times> 'v) list" where
  "map_delete k es = filter (\<lambda>e. fst e \<noteq> k) es"

subsection \<open>Template literals\<close>

definition digit_char :: "nat \<Rightarrow> char" where
  "digit_char n = char_of (48 + n)"

fun digits :: "nat \<Rightarrow> string" where
  "digits n = (if n < 10 then [digit_char n] else digits (n div 10) @ [digit_char (n mod 10)])"

definition show_int :: "int \<Rightarrow> string" where
  "show_int i = (if i < 0 then CHR ''-'' # digits (nat (- i)) else digits (nat i))"

text \<open>The em dash of the messages, as its three UTF-8 bytes.\<close>

definition em_dash :: string where
  "em_dash = [CHR 0xE2, CHR 0x80, CHR 0x94]"

definition timed_out_prefix :: "string \<Rightarrow> int \<Rightarrow> string" where
  "timed_out_prefix ty ms =
     ''Command '' @ [CHR 0x27] @ ty @ [CHR 0x27] @ '' timed out after '' @ show_int ms @ ''ms ''
       @ em_dash"

definition never_picked_up :: "string \<Rightarrow> int \<Rightarrow> JsError" where
  "never_picked_up ty ms = Error (timed_out_prefix ty ms @ '' plugin never picked it up'')"

definition no_result_returned :: "string \<Rightarrow> int \<Rightarrow> JsError" where
  "no_result_returned ty ms =
     Error (timed_out_prefix ty ms @ '' plugin did not return a result'')"

definition not_connected :: JsError where
  "not_connected = Error
     (''Roblox Studio plugin is not connected. ''
        @ ''Open Studio and ensure the MCP Bridge plugin is running.'')"

definition shutting_down :: JsError where
  "shutting_down = Error ''MCP server shutting down''"

subsection \<open>The queue (\<^verbatim>\<open>command-queue.ts\<close>)\<close>

text \<open>
  \<open>timeoutInterval\<close> is \<open>True\<close> while the interval timer is registered (the field holds a
  timer handle) and \<open>False\<close> when the field is \<open>null\<close>. \<open>promises p\<close> lists the calls made so
  far to the resolving functions of promise \<open>p\<close>; \<open>nextPromise\<close> is the number of promises
  created by \<open>enqueue\<close>.
\<close>

record ('p, 'd) CommandQueue =
  waitingQueue :: "'p PendingCommand list"
  pendingCommands :: "(string \<times> 'p PendingCommand) list"
  connectionState :: ConnectionState
  timeoutInterval :: bool
  config :: QueueConfig
  promises :: "nat \<Rightarrow> 'd Settlement list"
  nextPromise :: nat

text \<open>The constructor: the field initialisers, then \<open>startTimeoutSweep()\<close>.\<close>

definition new_CommandQueue :: "QueueConfig \<Rightarrow> ('p, 'd) CommandQueue" where
  "new_CommandQueue cfg =
     \<lparr> waitingQueue = [],
       pendingCommands = [],
       connectionState =
         \<lparr> connected = False, lastHeartbeat = 0, pluginVersion = None, studioSessionId = None \<rparr>,
       timeoutInterval = True,
       config = cfg,
       promises = (\<lambda>_. []),
       nextPromise = 0 \<rparr>"

text \<open>\<open>command.resolve(result)\<close> and \<open>cmd.reject(error)\<close>.\<close>

definition call_resolve ::
  "'p PendingCommand \<Rightarrow> 'd CommandResult \<Rightarrow> ('p, 'd) CommandQueue \<Rightarrow> ('p, 'd) CommandQueue" where
  "call_resolve cmd r q =
     q\<lparr>promises := (promises q)(cmd_promise cmd := promises q (cmd_promise cmd) @ [Resolved r])\<rparr>"

definition call_reject ::
  "'p PendingCommand \<Rightarrow> JsError \<Rightarrow> ('p, 'd) CommandQueue \<Rightarrow> ('p, 'd) CommandQueue" where
  "call_reject cmd e q =
     q\<lparr>promises := (promises q)(cmd_promise cmd := promises q (cmd_promise cmd) @ [Rejected e])\<rparr>"

text \<open>\<open>isConnected()\<close>; \<open>now\<close> is its reading of the clock.\<close>

definition isConnected :: "int \<Rightarrow> ('p, 'd) CommandQueue \<Rightarrow> bool" where
  "isConnected now q =
     (if \<not> connected (connectionState q) then False
      else let elapsed = now - lastHeartbeat (connectionState q)
           in elapsed < heartbeatTimeoutMs (config q))"

text \<open>
  \<open>enqueue(type, params)\<close>. \<open>now\<^sub>c\<close> is the clock read by \<open>isConnected()\<close>, \<open>now\<close> the one read
  for \<open>createdAt\<close>, \<open>uuid\<close> the value of \<open>uuidv4()\<close>. The result is \<open>Inl e\<close> for
  \<open>Promise.reject(e)\<close> and \<open>Inr p\<close> for the new promise \<open>p\<close>.
\<close>

definition enqueue ::
  "int \<Rightarrow> int \<Rightarrow> string \<Rightarrow> string \<Rightarrow> 'p \<Rightarrow> ('p, 'd) CommandQueue
     \<Rightarrow> (JsError + nat) \<times> ('p, 'd) CommandQueue" where
  "enqueue now\<^sub>c now uuid ty params q =
     (if \<not> isConnected now\<^sub>c q then (Inl not_connected, q)
      else
        let command = \<lparr> cmd_id = uuid, cmd_type = ty, cmd_params = params,
                        cmd_promise = nextPromise q, createdAt = now \<rparr>
        in (Inr (nextPromise q),
            q\<lparr>nextPromise := Suc (nextPromise q),
              waitingQueue := waitingQueue q @ [command]\<rparr>))"

text \<open>\<open>dequeue()\<close>: \<open>None\<close> is \<open>null\<close>.\<close>

definition dequeue ::
  "('p, 'd) CommandQueue \<Rightarrow> 'p SerializedCommand option \<times> ('p, 'd) CommandQueue" where
  "dequeue q =
     (case waitingQueue q of
        [] \<Rightarrow> (None, q)
      | command # rest \<Rightarrow>
          (Some \<lparr> ser_id = cmd_id command, ser_type = cmd_type command,
                  ser_params = cmd_params command \<rparr>,
           q\<lparr>waitingQueue := rest,
             pendingCommands := map_set (cmd_id command) command (pendingCommands q)\<rparr>))"

text \<open>\<open>resolve(result)\<close>.\<close>

definition resolve ::
  "'d CommandResult \<Rightarrow> ('p, 'd) CommandQueue \<Rightarrow> bool \<times> ('p, 'd) CommandQueue" where
  "resolve r q =
     (case map_of (pendingCommands q) (result_id r) of
        None \<Rightarrow> (False, q)
      | Some command \<Rightarrow>
          (True,
           call_resolve command r
             (q\<lparr>pendingCommands := map_delete (result_id r) (pendingCommands q)\<rparr>)))"

text \<open>\<open>heartbeat(pluginVersion?, studioSessionId?)\<close>.\<close>

definition heartbeat ::
  "int \<Rightarrow> string option \<Rightarrow> string option \<Rightarrow> ('p, 'd) CommandQueue \<Rightarrow> ('p, 'd) CommandQueue" where
  "heartbeat now version session q =
     q\<lparr>connectionState :=
         \<lparr> connected = True, lastHeartbeat = now, pluginVersion = version,
           studioSessionId = session \<rparr>\<rparr>"

text \<open>\<open>getStats()\<close>: waiting count, pending count, connected.\<close>

definition getStats :: "int \<Rightarrow> ('p, 'd) CommandQueue \<Rightarrow> nat \<times> nat \<times> bool" where
  "getStats now q = (length (waitingQueue q), length (pendingCommands q), isConnected now q)"

text \<open>The test of both sweeps: \<open>now - cmd.createdAt > this.config.commandTimeoutMs\<close>.\<close>

definition expired :: "int \<Rightarrow> ('p, 'd) CommandQueue \<Rightarrow> 'p PendingCommand \<Rightarrow> bool" where
  "expired now q cmd \<longleftrightarrow> now - createdAt cmd > commandTimeoutMs (config q)"

text \<open>The loop \<open>for (const cmd of expiredWaiting) cmd.reject(...)\<close>.\<close>

fun rejectExpiredWaiting ::
  "'p PendingCommand list \<Rightarrow> ('p, 'd) CommandQueue \<Rightarrow> ('p, 'd) CommandQueue" where
  "rejectExpiredWaiting [] q = q"
| "rejectExpiredWaiting (cmd # cmds) q =
     rejectExpiredWaiting cmds
       (call_reject cmd (never_picked_up (cmd_type cmd) (commandTimeoutMs (config q))) q)"

text \<open>
  The loop \<open>for (const [id, cmd] of this.pendingCommands)\<close> of the sweep. The first argument
  is what the iterator has still to visit: deleting the entry being visited leaves the
  entries after it in place, so the iterator visits every entry the map had at the start.
\<close>

fun sweepPending ::
  "int \<Rightarrow> (string \<times> 'p PendingCommand) list \<Rightarrow> ('p, 'd) CommandQueue
     \<Rightarrow> ('p, 'd) CommandQueue" where
  "sweepPending now [] q = q"
| "sweepPending now (e # es) q =
     (if expired now q (snd e)
      then sweepPending now es
             (call_reject (snd e)
                (no_result_returned (cmd_type (snd e)) (commandTimeoutMs (config q)))
                (q\<lparr>pendingCommands := map_delete (fst e) (pendingCommands q)\<rparr>))
      else sweepPending now es q)"

text \<open>The callback given to \<open>setInterval\<close> by \<open>startTimeoutSweep()\<close>: one tick of the sweep.\<close>

definition sweep :: "int \<Rightarrow> ('p, 'd) CommandQueue \<Rightarrow> ('p, 'd) CommandQueue" where
  "sweep now q =
     (let expiredWaiting = filter (expired now q) (waitingQueue q);
          q1 = q\<lparr>waitingQueue := filter (\<lambda>cmd. \<not> expired now q cmd) (waitingQueue q)\<rparr>;
          q2 = rejectExpiredWaiting expiredWaiting q1
      in sweepPending now (pendingCommands q2) q2)"

text \<open>The two loops of \<open>shutdown()\<close>.\<close>

fun rejectAll ::
  "'p PendingCommand list \<Rightarrow> ('p, 'd) CommandQueue \<Rightarrow> ('p, 'd) CommandQueue" where
  "rejectAll [] q = q"
| "rejectAll (cmd # cmds) q = rejectAll cmds (call_reject cmd shutting_down q)"

text \<open>\<open>shutdown()\<close>.\<close>

definition shutdown :: "('p, 'd) CommandQueue \<Rightarrow> ('p, 'd) CommandQueue" where
  "shutdown q =
     (let q1 = (if timeoutInterval q then q\<lparr>timeoutInterval := False\<rparr> else q);
          q2 = rejectAll (waitingQueue q1) q1;
          q3 = q2\<lparr>waitingQueue := []\<rparr>;
          q4 = rejectAll (map snd (pendingCommands q3)) q3
      in q4\<lparr>pendingCommands := []\<rparr>)"

subsection \<open>Histories of a queue\<close>

text \<open>
  The calls a queue receives between its construction and any later instant. \<open>Tick now\<close> is
  the moment at which the interval timer would fire: the callback runs only while the timer
  is registered.
\<close>

datatype ('p, 'd) Event =
    Enqueue int int string string 'p
  | Dequeue
  | Resolve "'d CommandResult"
  | Heartbeat int "string option" "string option"
  | Tick int
  | Shutdown

fun exec :: "('p, 'd) Event \<Rightarrow> ('p, 'd) CommandQueue \<Rightarrow> ('p, 'd) CommandQueue" where
  "exec (Enqueue now\<^sub>c now uuid ty params) q = snd (enqueue now\<^sub>c now uuid ty params q)"
| "exec Dequeue q = snd (dequeue q)"
| "exec (Resolve r) q = snd (resolve r q)"
| "exec (Heartbeat now version session) q = heartbeat now version session q"
| "exec (Tick now) q = (if timeoutInterval q then sweep now q else q)"
| "exec Shutdown q = shutdown q"

fun run :: "('p, 'd) Event list \<Rightarrow> ('p, 'd) CommandQueue \<Rightarrow> ('p, 'd) CommandQueue" where
  "run [] q = q"
| "run (e # es) q = run es (exec e q)"

text \<open>
  The identifiers that \<open>uuidv4()\<close> hands out along a history. A rejected \<open>enqueue\<close> does
  not call \<open>uuidv4()\<close> and ignores the identifier of its event.
\<close>

fun uuids :: "('p, 'd) Event list \<Rightarrow> string list" where
  "uuids [] = []"
| "uuids (Enqueue now\<^sub>c now uuid ty params # es) = uuid # uuids es"
| "uuids (e # es) = uuids es"

subsection \<open>Notions used to state the properties\<close>

text \<open>
  How often the promise \<open>p\<close> is held by a command of the waiting queue, and by a command of
  the pending map.
\<close>

definition waitingCount :: "nat \<Rightarrow> ('p, 'd) CommandQueue \<Rightarrow> nat" where
  "waitingCount p q = length (filter (\<lambda>cmd. cmd_promise cmd = p) (waitingQueue q))"

definition pendingCount :: "nat \<Rightarrow> ('p, 'd) CommandQueue \<Rightarrow> nat" where
  "pendingCount p q = length (filter (\<lambda>e. cmd_promise (snd e) = p) (pendingCommands q))"

text \<open>The identifiers of the commands the queue holds: waiting queue, then pending keys.\<close>

definition live_ids :: "('p, 'd) CommandQueue \<Rightarrow> string list" where
  "live_ids q = map cmd_id (waitingQueue q) @ map fst (pendingCommands q)"

text \<open>
  Every promise created so far is either held by exactly one command and has received no
  call, or is held by none and has received exactly one call; no other promise is held or
  has received a call.
\<close>

definition accounted :: "('p, 'd) CommandQueue \<Rightarrow> bool" where
  "accounted q \<longleftrightarrow>
     (\<forall>p. waitingCount p q + pendingCount p q + length (promises q p)
            = (if p < nextPromise q then 1 else 0))"

definition queue_inv :: "('p, 'd) CommandQueue \<Rightarrow> bool" where
  "queue_inv q \<longleftrightarrow> distinct (live_ids q) \<and> accounted q"

text \<open>The time of the most recent heartbeat of a history.\<close>

fun lastHeartbeatOf :: "('p, 'd) Event list \<Rightarrow> int option" where
  "lastHeartbeatOf [] = None"
| "lastHeartbeatOf (e # es) =
     (case lastHeartbeatOf es of
        Some T \<Rightarrow> Some T
      | None \<Rightarrow> (case e of Heartbeat now version session \<Rightarrow> Some now | _ \<Rightarrow> None))"

text \<open>\<open>DEFAULT_BRIDGE_CONFIG\<close> of \<^verbatim>\<open>types.ts\<close>, restricted to the fields of \<open>QueueConfig\<close>.\<close>

definition default_config :: QueueConfig where
  "default_config = \<lparr> commandTimeoutMs = 30000, heartbeatTimeoutMs = 10000 \<rparr>"

text \<open>The object literal that \<open>dequeue()\<close> returns for a command.\<close>

definition serialized :: "'p PendingCommand \<Rightarrow> 'p SerializedCommand" where
  "serialized command =
     \<lparr> ser_id = cmd_id command, ser_type = cmd_type command, ser_params = cmd_params command \<rparr>"

text \<open>
  What the callers observe along a history: the views returned by the \<open>dequeue()\<close> calls, in
  the order of the calls, and the views of the commands that the \<open>enqueue\<close> calls accepted
  (those that returned a pending promise), in the order of the calls.
\<close>

fun deliveries :: "('p, 'd) Event list \<Rightarrow> ('p, 'd) CommandQueue \<Rightarrow> 'p SerializedCommand list" where
  "deliveries [] q = []"
| "deliveries (Dequeue # es) q =
     (case fst (dequeue q) of None \<Rightarrow> [] | Some v \<Rightarrow> [v]) @ deliveries es (exec Dequeue q)"
| "deliveries (e # es) q = deliveries es (exec e q)"

fun enqueued :: "('p, 'd) Event list \<Rightarrow> ('p, 'd) CommandQueue \<Rightarrow> 'p SerializedCommand list" where
  "enqueued [] q = []"
| "enqueued (Enqueue now\<^sub>c now uuid ty params # es) q =
     (case fst (enqueue now\<^sub>c now uuid ty params q) of
        Inl err \<Rightarrow> []
      | Inr p \<Rightarrow> [\<lparr> ser_id = uuid, ser_type = ty, ser_params = params \<rparr>])
     @ enqueued es (exec (Enqueue now\<^sub>c now uuid ty params) q)"
| "enqueued (e # es) q = enqueued es (exec e q)"

text \<open>
  \<open>keeps T t e\<close>: the call or tick \<open>e\<close> neither delivers a command nor removes a waiting
  command created at time \<open>t\<close>, the command timeout being \<open>T\<close>: it is not a \<open>dequeue()\<close>, not
  \<open>shutdown()\<close>, and not a tick at which the age of that command exceeds \<open>T\<close>.
\<close>

fun keeps :: "int \<Rightarrow> int \<Rightarrow> ('p, 'd) Event \<Rightarrow> bool" where
  "keeps T t (Tick now) = (\<not> now - t > T)"
| "keeps T t Dequeue = False"
| "keeps T t Shutdown = False"
| "keeps T t e = True"

fun no_enqueue :: "('p, 'd) Event \<Rightarrow> bool" where
  "no_enqueue (Enqueue now\<^sub>c now uuid ty params) = False"
| "no_enqueue e = True"

text \<open>The errors with which the sweep and \<open>shutdown()\<close> reject.\<close>

definition timeout_or_shutdown :: "QueueConfig \<Rightarrow> JsError \<Rightarrow> bool" where
  "timeout_or_shutdown cfg e \<longleftrightarrow>
     e = shutting_down
     \<or> (\<exists>ty. e = never_picked_up ty (commandTimeoutMs cfg))
     \<or> (\<exists>ty. e = no_result_returned ty (commandTimeoutMs cfg))"

text \<open>
  A history that leaves two open commands: \<open>a\<close> delivered and unanswered, \<open>b\<close> waiting.
\<close>

definition two_open_commands :: "(unit, unit) Event list" where
  "two_open_commands =
     [Heartbeat 0 None None, Enqueue 1 1 ''a'' ''ping'' (), Enqueue 2 2 ''b'' ''pong'' (),
      Dequeue]"

section \<open>Frame and loop lemmas\<close>

lemma call_reject_frame [simp]:
  "waitingQueue (call_reject c e q) = waitingQueue q"
  "pendingCommands (call_reject c e q) = pendingCommands q"
  "connectionState (call_reject c e q) = connectionState q"
  "timeoutInterval (call_reject c e q) = timeoutInterval q"
  "config (call_reject c e q) = config q"
  "nextPromise (call_reject c e q) = nextPromise q"
  by (simp_all add: call_reject_def)

lemma call_resolve_frame [simp]:
  "waitingQueue (call_resolve c r q) = waitingQueue q"
  "pendingCommands (call_resolve c r q) = pendingCommands q"
  "connectionState (call_resolve c r q) = connectionState q"
  "timeoutInterval (call_resolve c r q) = timeoutInterval q"
  "config (call_resolve c r q) = config q"
  "nextPromise (call_resolve c r q) = nextPromise q"
  by (simp_all add: call_resolve_def)

lemma rejectAll_frame [simp]:
  "waitingQueue (rejectAll cs q) = waitingQueue q"
  "pendingCommands (rejectAll cs q) = pendingCommands q"
  "connectionState (rejectAll cs q) = connectionState q"
  "timeoutInterval (rejectAll cs q) = timeoutInterval q"
  "config (rejectAll cs q) = config q"
  "nextPromise (rejectAll cs q) = nextPromise q"
  by (induction cs arbitrary: q; simp)+

lemma rejectExpiredWaiting_frame [simp]:
  "waitingQueue (rejectExpiredWaiting cs q) = waitingQueue q"
  "pendingCommands (rejectExpiredWaiting cs q) = pendingCommands q"
  "connectionState (rejectExpiredWaiting cs q) = connectionState q"
  "timeoutInterval (rejectExpiredWaiting cs q) = timeoutInterval q"
  "config (rejectExpiredWaiting cs q) = config q"
  "nextPromise (rejectExpiredWaiting cs q) = nextPromise q"
  by (induction cs arbitrary: q; simp)+

lemma sweepPending_frame [simp]:
  "waitingQueue (sweepPending now es q) = waitingQueue q"
  "connectionState (sweepPending now es q) = connectionState q"
  "timeoutInterval (sweepPending now es q) = timeoutInterval q"
  "config (sweepPending now es q) = config q"
  "nextPromise (sweepPending now es q) = nextPromise q"
  by (induction es arbitrary: q; simp)+

lemma promises_rejectAll:
  "promises (rejectAll cs q) p =
     promises q p @ map (\<lambda>c. Rejected shutting_down) (filter (\<lambda>c. cmd_promise c = p) cs)"
  by (induction cs arbitrary: q) (simp_all add: call_reject_def)

lemma promises_rejectExpiredWaiting:
  "promises (rejectExpiredWaiting cs q) p =
     promises q p @ map (\<lambda>c. Rejected (never_picked_up (cmd_type c) (commandTimeoutMs (config q))))
       (filter (\<lambda>c. cmd_promise c = p) cs)"
  by (induction cs arbitrary: q) (simp_all add: call_reject_def)

lemma expired_frame [simp]:
  "expired now (call_reject c e q) = expired now q"
  "expired now (q\<lparr>pendingCommands := ps\<rparr>) = expired now q"
  "expired now (q\<lparr>waitingQueue := ws\<rparr>) = expired now q"
  "expired now (rejectExpiredWaiting cs q) = expired now q"
  "expired now (q\<lparr>promises := pr\<rparr>) = expired now q"
  by (simp_all add: expired_def fun_eq_iff)

lemma promises_sweepPending:
  "promises (sweepPending now es q) p =
     promises q p @ map (\<lambda>e. Rejected (no_result_returned (cmd_type (snd e)) (commandTimeoutMs (config q))))
       (filter (\<lambda>e. expired now q (snd e) \<and> cmd_promise (snd e) = p) es)"
  by (induction es arbitrary: q) (simp_all add: call_reject_def)

lemma pendingCommands_sweepPending:
  "pendingCommands (sweepPending now es q) =
     filter (\<lambda>e. fst e \<notin> fst ` {x \<in> set es. expired now q (snd x)}) (pendingCommands q)"
proof (induction es arbitrary: q)
  case Nil
  show ?case by simp
next
  case (Cons e es)
  show ?case
  proof (cases "expired now q (snd e)")
    case True
    have "{x \<in> set (e # es). expired now q (snd x)} = insert e {x \<in> set es. expired now q (snd x)}"
      using True by auto
    then show ?thesis
      using True by (simp add: Cons.IH map_delete_def conj_commute)
  next
    case False
    have "{x \<in> set (e # es). expired now q (snd x)} = {x \<in> set es. expired now q (snd x)}"
      using False by auto
    then show ?thesis
      using False by (simp add: Cons.IH)
  qed
qed

lemma sweep_frame [simp]:
  "connectionState (sweep now q) = connectionState q"
  "timeoutInterval (sweep now q) = timeoutInterval q"
  "config (sweep now q) = config q"
  "nextPromise (sweep now q) = nextPromise q"
  by (simp_all add: sweep_def Let_def)

lemma waitingQueue_sweep:
  "waitingQueue (sweep now q) = filter (\<lambda>cmd. \<not> expired now q cmd) (waitingQueue q)"
  by (simp add: sweep_def Let_def)

lemma shutdown_frame [simp]:
  "connectionState (shutdown q) = connectionState q"
  "config (shutdown q) = config q"
  "nextPromise (shutdown q) = nextPromise q"
  "timeoutInterval (shutdown q) = False"
  "waitingQueue (shutdown q) = []"
  "pendingCommands (shutdown q) = []"
  by (simp_all add: shutdown_def Let_def)

lemma exec_config [simp]: "config (exec e q) = config q"
  by (cases e) (simp_all add: enqueue_def dequeue_def resolve_def heartbeat_def Let_def
      split: list.splits option.splits)

lemma run_config [simp]: "config (run es q) = config q"
  by (induction es arbitrary: q) simp_all

section \<open>The accounting invariant\<close>

lemma map_set_fresh: "k \<notin> fst ` set es \<Longrightarrow> map_set k v es = es @ [(k, v)]"
  by (induction es) auto

lemma filter_single_key:
  "distinct (map fst es) \<Longrightarrow> map_of es k = Some v \<Longrightarrow> filter (\<lambda>e. fst e = k) es = [(k, v)]"
proof (induction es)
  case Nil
  then show ?case by simp
next
  case (Cons e es)
  show ?case
  proof (cases "fst e = k")
    case True
    with Cons.prems have "e = (k, v)" by (cases e) simp
    moreover have "filter (\<lambda>e. fst e = k) es = []"
    proof -
      from True Cons.prems(1) have "k \<notin> fst ` set es" by simp
      then have "\<forall>x\<in>set es. fst x \<noteq> k" by (metis imageI)
      then show ?thesis by (simp add: filter_empty_conv)
    qed
    ultimately show ?thesis by simp
  next
    case False
    with Cons show ?thesis by simp
  qed
qed

lemma filter_split_count:
  "length (filter A (filter P xs)) + length (filter (\<lambda>x. \<not> P x \<and> A x) xs) = length (filter A xs)"
  by (induction xs) auto

lemma queue_inv_new: "queue_inv (new_CommandQueue cfg)"
  by (simp add: queue_inv_def accounted_def live_ids_def waitingCount_def pendingCount_def
      new_CommandQueue_def)

lemma queue_inv_heartbeat: "queue_inv q \<Longrightarrow> queue_inv (heartbeat now v s q)"
  by (simp add: queue_inv_def accounted_def live_ids_def waitingCount_def pendingCount_def
      heartbeat_def)

lemma queue_inv_enqueue:
  assumes "queue_inv q" and "uuid \<notin> set (live_ids q)"
  shows "queue_inv (snd (enqueue now\<^sub>c now uuid ty params q))"
proof (cases "isConnected now\<^sub>c q")
  case False
  with assms show ?thesis by (simp add: enqueue_def)
next
  case True
  from assms(1) have acc: "\<And>p. waitingCount p q + pendingCount p q + length (promises q p)
            = (if p < nextPromise q then 1 else 0)"
    by (simp add: queue_inv_def accounted_def)
  have "accounted (snd (enqueue now\<^sub>c now uuid ty params q))"
    unfolding accounted_def
  proof
    fix p
    show "waitingCount p (snd (enqueue now\<^sub>c now uuid ty params q))
        + pendingCount p (snd (enqueue now\<^sub>c now uuid ty params q))
        + length (promises (snd (enqueue now\<^sub>c now uuid ty params q)) p)
        = (if p < nextPromise (snd (enqueue now\<^sub>c now uuid ty params q)) then 1 else 0)"
      using acc [of p] True
      by (auto simp: enqueue_def Let_def waitingCount_def pendingCount_def)
  qed
  moreover have "distinct (live_ids (snd (enqueue now\<^sub>c now uuid ty params q)))"
    using assms True by (auto simp: queue_inv_def enqueue_def Let_def live_ids_def)
  ultimately show ?thesis by (simp add: queue_inv_def)
qed

lemma queue_inv_dequeue:
  assumes "queue_inv q"
  shows "queue_inv (snd (dequeue q))"
proof (cases "waitingQueue q")
  case Nil
  with assms show ?thesis by (simp add: dequeue_def)
next
  case (Cons c rest)
  from assms Cons have fresh: "cmd_id c \<notin> fst ` set (pendingCommands q)"
    by (auto simp: queue_inv_def live_ids_def)
  have pend: "pendingCommands (snd (dequeue q)) = pendingCommands q @ [(cmd_id c, c)]"
    and wait: "waitingQueue (snd (dequeue q)) = rest"
    and rest: "promises (snd (dequeue q)) = promises q" "nextPromise (snd (dequeue q)) = nextPromise q"
    using Cons fresh by (simp_all add: dequeue_def map_set_fresh)
  from assms have acc: "\<And>p. waitingCount p q + pendingCount p q + length (promises q p)
            = (if p < nextPromise q then 1 else 0)"
    by (simp add: queue_inv_def accounted_def)
  have "accounted (snd (dequeue q))"
    unfolding accounted_def
  proof
    fix p
    show "waitingCount p (snd (dequeue q)) + pendingCount p (snd (dequeue q))
        + length (promises (snd (dequeue q)) p)
        = (if p < nextPromise (snd (dequeue q)) then 1 else 0)"
    proof -
      have "waitingCount p q = (if cmd_promise c = p then 1 else 0) + waitingCount p (snd (dequeue q))"
        by (simp add: waitingCount_def wait Cons)
      moreover have "pendingCount p (snd (dequeue q)) = pendingCount p q + (if cmd_promise c = p then 1 else 0)"
        by (simp add: pendingCount_def pend)
      ultimately show ?thesis
        using acc [of p] by (simp add: rest)
    qed
  qed
  moreover have "distinct (live_ids (snd (dequeue q)))"
    using assms Cons by (auto simp: queue_inv_def live_ids_def pend wait)
  ultimately show ?thesis by (simp add: queue_inv_def)
qed

lemma queue_inv_resolve:
  assumes "queue_inv q"
  shows "queue_inv (snd (resolve r q))"
proof (cases "map_of (pendingCommands q) (result_id r)")
  case None
  with assms show ?thesis by (simp add: resolve_def)
next
  case (Some c)
  from assms have dk: "distinct (map fst (pendingCommands q))"
    by (simp add: queue_inv_def live_ids_def)
  have one: "filter (\<lambda>e. fst e = result_id r) (pendingCommands q) = [(result_id r, c)]"
    using dk Some by (rule filter_single_key)
  have pend: "pendingCommands (snd (resolve r q)) = filter (\<lambda>e. fst e \<noteq> result_id r) (pendingCommands q)"
    and wait: "waitingQueue (snd (resolve r q)) = waitingQueue q"
    and nxt: "nextPromise (snd (resolve r q)) = nextPromise q"
    and prom: "\<And>p. promises (snd (resolve r q)) p =
        (if p = cmd_promise c then promises q p @ [Resolved r] else promises q p)"
    using Some by (simp_all add: resolve_def map_delete_def call_resolve_def)
  from assms have acc: "\<And>p. waitingCount p q + pendingCount p q + length (promises q p)
            = (if p < nextPromise q then 1 else 0)"
    by (simp add: queue_inv_def accounted_def)
  have "accounted (snd (resolve r q))"
    unfolding accounted_def
  proof
    fix p
    let ?A = "\<lambda>e. cmd_promise (snd e) = p"
    have "length (filter (\<lambda>e. \<not> fst e \<noteq> result_id r \<and> ?A e) (pendingCommands q))
        = length (filter ?A (filter (\<lambda>e. fst e = result_id r) (pendingCommands q)))"
      by (simp add: conj_commute)
    also have "\<dots> = (if p = cmd_promise c then 1 else 0)"
      by (auto simp: one)
    finally have removed: "length (filter (\<lambda>e. \<not> fst e \<noteq> result_id r \<and> ?A e) (pendingCommands q))
        = (if p = cmd_promise c then 1 else 0)" .
    have pc: "pendingCount p (snd (resolve r q)) + (if p = cmd_promise c then 1 else 0) = pendingCount p q"
      unfolding pendingCount_def pend removed [symmetric] by (rule filter_split_count)
    show "waitingCount p (snd (resolve r q)) + pendingCount p (snd (resolve r q))
        + length (promises (snd (resolve r q)) p)
        = (if p < nextPromise (snd (resolve r q)) then 1 else 0)"
    proof -
      have "waitingCount p (snd (resolve r q)) = waitingCount p q"
        by (simp add: waitingCount_def wait)
      moreover have "length (promises (snd (resolve r q)) p)
          = length (promises q p) + (if p = cmd_promise c then 1 else 0)"
        by (simp add: prom)
      ultimately show ?thesis
        using acc [of p] pc by (simp add: nxt)
    qed
  qed
  moreover have "distinct (live_ids (snd (resolve r q)))"
    using assms by (auto simp: queue_inv_def live_ids_def pend wait distinct_map_filter)
  ultimately show ?thesis by (simp add: queue_inv_def)
qed

lemma accounted_remove:
  assumes acc: "accounted q"
    and W: "waitingQueue q' = filter P (waitingQueue q)"
    and Pn: "pendingCommands q' = filter Q (pendingCommands q)"
    and N: "nextPromise q' = nextPromise q"
    and Pr: "\<And>p. length (promises q' p) = length (promises q p)
          + length (filter (\<lambda>c. \<not> P c \<and> cmd_promise c = p) (waitingQueue q))
          + length (filter (\<lambda>e. \<not> Q e \<and> cmd_promise (snd e) = p) (pendingCommands q))"
  shows "accounted q'"
  unfolding accounted_def
proof
  fix p
  have w: "waitingCount p q' + length (filter (\<lambda>c. \<not> P c \<and> cmd_promise c = p) (waitingQueue q))
      = waitingCount p q"
    unfolding waitingCount_def W by (rule filter_split_count)
  have pn: "pendingCount p q' + length (filter (\<lambda>e. \<not> Q e \<and> cmd_promise (snd e) = p) (pendingCommands q))
      = pendingCount p q"
    unfolding pendingCount_def Pn by (rule filter_split_count)
  from acc have "waitingCount p q + pendingCount p q + length (promises q p)
      = (if p < nextPromise q then 1 else 0)"
    by (simp add: accounted_def)
  with w pn Pr [of p] show "waitingCount p q' + pendingCount p q' + length (promises q' p)
      = (if p < nextPromise q' then 1 else 0)"
    by (simp add: N)
qed

lemma live_ids_remove:
  assumes "distinct (live_ids q)"
    and "waitingQueue q' = filter P (waitingQueue q)"
    and "pendingCommands q' = filter Q (pendingCommands q)"
  shows "distinct (live_ids q')" and "set (live_ids q') \<subseteq> set (live_ids q)"
  using assms by (auto simp: live_ids_def distinct_map_filter)

lemma pendingCommands_sweep:
  assumes "distinct (map fst (pendingCommands q))"
  shows "pendingCommands (sweep now q) = filter (\<lambda>e. \<not> expired now q (snd e)) (pendingCommands q)"
proof -
  have "pendingCommands (sweep now q) =
      filter (\<lambda>e. fst e \<notin> fst ` {x \<in> set (pendingCommands q). expired now q (snd x)})
        (pendingCommands q)"
    by (simp add: sweep_def Let_def pendingCommands_sweepPending)
  also have "\<dots> = filter (\<lambda>e. \<not> expired now q (snd e)) (pendingCommands q)"
  proof (rule filter_cong [OF refl])
    fix e assume e: "e \<in> set (pendingCommands q)"
    show "(fst e \<notin> fst ` {x \<in> set (pendingCommands q). expired now q (snd x)})
        = (\<not> expired now q (snd e))"
    proof
      assume "fst e \<notin> fst ` {x \<in> set (pendingCommands q). expired now q (snd x)}"
      with e show "\<not> expired now q (snd e)" by blast
    next
      assume ne: "\<not> expired now q (snd e)"
      show "fst e \<notin> fst ` {x \<in> set (pendingCommands q). expired now q (snd x)}"
      proof
        assume "fst e \<in> fst ` {x \<in> set (pendingCommands q). expired now q (snd x)}"
        then obtain x where x: "x \<in> set (pendingCommands q)" "expired now q (snd x)" "fst x = fst e"
          by auto
        from assms have "inj_on fst (set (pendingCommands q))" by (simp add: distinct_map)
        from inj_onD [OF this x(3) x(1) e] have "x = e" .
        with x(2) ne show False by simp
      qed
    qed
  qed
  finally show ?thesis .
qed

lemma promises_sweep:
  "promises (sweep now q) p =
     promises q p
       @ map (\<lambda>c. Rejected (never_picked_up (cmd_type c) (commandTimeoutMs (config q))))
           (filter (\<lambda>c. expired now q c \<and> cmd_promise c = p) (waitingQueue q))
       @ map (\<lambda>e. Rejected (no_result_returned (cmd_type (snd e)) (commandTimeoutMs (config q))))
           (filter (\<lambda>e. expired now q (snd e) \<and> cmd_promise (snd e) = p) (pendingCommands q))"
  by (simp add: sweep_def Let_def promises_sweepPending promises_rejectExpiredWaiting conj_commute)

lemma promises_shutdown:
  "promises (shutdown q) p =
     promises q p
       @ map (\<lambda>c. Rejected shutting_down) (filter (\<lambda>c. cmd_promise c = p) (waitingQueue q))
       @ map (\<lambda>e. Rejected shutting_down)
           (filter (\<lambda>e. cmd_promise (snd e) = p) (pendingCommands q))"
  by (simp add: shutdown_def Let_def promises_rejectAll filter_map comp_def)

lemma queue_inv_sweep:
  assumes "queue_inv q"
  shows "queue_inv (sweep now q)" and "set (live_ids (sweep now q)) \<subseteq> set (live_ids q)"
proof -
  from assms have dk: "distinct (map fst (pendingCommands q))"
    and dl: "distinct (live_ids q)" and acc: "accounted q"
    by (simp_all add: queue_inv_def live_ids_def)
  note W = waitingQueue_sweep [of now q]
  note Pn = pendingCommands_sweep [OF dk, of now]
  have "accounted (sweep now q)"
    by (rule accounted_remove [OF acc W Pn]) (simp_all add: promises_sweep)
  with live_ids_remove [OF dl W Pn]
  show "queue_inv (sweep now q)" and "set (live_ids (sweep now q)) \<subseteq> set (live_ids q)"
    by (simp_all add: queue_inv_def)
qed

lemma queue_inv_shutdown:
  assumes "queue_inv q"
  shows "queue_inv (shutdown q)"
proof -
  from assms have acc: "accounted q" by (simp add: queue_inv_def)
  have W: "waitingQueue (shutdown q) = filter (\<lambda>_. False) (waitingQueue q)"
    and Pn: "pendingCommands (shutdown q) = filter (\<lambda>_. False) (pendingCommands q)"
    by simp_all
  have "accounted (shutdown q)"
    by (rule accounted_remove [OF acc W Pn]) (simp_all add: promises_shutdown)
  then show ?thesis by (simp add: queue_inv_def live_ids_def)
qed

lemma live_ids_exec: "distinct (live_ids q) \<Longrightarrow> set (live_ids (exec e q)) \<subseteq> set (live_ids q) \<union> set (uuids [e])"
proof (cases e)
  case (Tick now)
  assume d: "distinct (live_ids q)"
  then have dk: "distinct (map fst (pendingCommands q))" by (simp add: live_ids_def)
  from live_ids_remove(2) [OF d waitingQueue_sweep pendingCommands_sweep [OF dk]] Tick
  show ?thesis by auto
next
  case Dequeue
  assume d: "distinct (live_ids q)"
  show ?thesis
  proof (cases "waitingQueue q")
    case Nil
    with Dequeue show ?thesis by (simp add: dequeue_def)
  next
    case (Cons c rest)
    with d have "cmd_id c \<notin> fst ` set (pendingCommands q)" by (auto simp: live_ids_def)
    with Cons Dequeue show ?thesis by (auto simp: dequeue_def map_set_fresh live_ids_def)
  qed
qed (auto simp: live_ids_def enqueue_def resolve_def heartbeat_def map_delete_def Let_def
      split: option.splits)

lemma queue_inv_exec:
  assumes "queue_inv q" and "set (uuids [e]) \<inter> set (live_ids q) = {}"
  shows "queue_inv (exec e q)"
  using assms
  by (cases e) (simp_all add: queue_inv_enqueue queue_inv_dequeue queue_inv_resolve
      queue_inv_heartbeat queue_inv_sweep queue_inv_shutdown)

lemma uuids_Cons: "uuids (e # es) = uuids [e] @ uuids es"
  by (cases e) simp_all

lemma queue_inv_run:
  assumes "queue_inv q" and "distinct (uuids es)" and "set (uuids es) \<inter> set (live_ids q) = {}"
  shows "queue_inv (run es q)"
  using assms
proof (induction es arbitrary: q)
  case Nil
  then show ?case by simp
next
  case (Cons e es)
  from Cons.prems(2,3) have d: "distinct (uuids es)" and f: "set (uuids [e]) \<inter> set (live_ids q) = {}"
    and g: "set (uuids es) \<inter> set (live_ids q) = {}" and h: "set (uuids es) \<inter> set (uuids [e]) = {}"
    by (auto simp: uuids_Cons [of e es])
  have inv: "queue_inv (exec e q)" using Cons.prems(1) f by (rule queue_inv_exec)
  from Cons.prems(1) have "distinct (live_ids q)" by (simp add: queue_inv_def)
  from live_ids_exec [OF this, of e] g h have "set (uuids es) \<inter> set (live_ids (exec e q)) = {}"
    by blast
  with Cons.IH [OF inv d] show ?case by simp
qed

lemma queue_inv_reachable:
  "distinct (uuids es) \<Longrightarrow> queue_inv (run es (new_CommandQueue cfg))"
  by (rule queue_inv_run [OF queue_inv_new]) (simp_all add: live_ids_def new_CommandQueue_def)

section \<open>Commands held by the queue\<close>

lemma accountedD:
  "accounted q \<Longrightarrow>
     waitingCount p q + pendingCount p q + length (promises q p)
       = (if p < nextPromise q then 1 else 0)"
  by (simp add: accounted_def)

lemma one_holder:
  fixes w p l :: nat
  shows "0 < w \<Longrightarrow> w + p + l = (if b then 1 else 0) \<Longrightarrow> w = 1 \<and> p = 0 \<and> l = 0 \<and> b"
  by (cases b) auto

lemma filter_eq_single:
  assumes "x \<in> set xs" and "P x" and "length (filter P xs) \<le> 1"
  shows "filter P xs = [x]"
proof -
  from assms(1,2) have "x \<in> set (filter P xs)" by simp
  with assms(3) show ?thesis
    by (cases "filter P xs") auto
qed

lemma held_waiting:
  assumes "accounted q" and "c \<in> set (waitingQueue q)"
  shows "filter (\<lambda>x. cmd_promise x = cmd_promise c) (waitingQueue q) = [c]"
    and "filter (\<lambda>e. cmd_promise (snd e) = cmd_promise c) (pendingCommands q) = []"
    and "promises q (cmd_promise c) = []"
    and "cmd_promise c < nextPromise q"
proof -
  from assms(2) have "c \<in> set (filter (\<lambda>x. cmd_promise x = cmd_promise c) (waitingQueue q))"
    by simp
  then have "0 < waitingCount (cmd_promise c) q"
    unfolding waitingCount_def by (simp only: length_pos_if_in_set)
  from one_holder [OF this accountedD [OF assms(1), of "cmd_promise c"]]
  have w: "waitingCount (cmd_promise c) q = 1" and p: "pendingCount (cmd_promise c) q = 0"
    and l: "length (promises q (cmd_promise c)) = 0" and n: "cmd_promise c < nextPromise q"
    by blast+
  from w show "filter (\<lambda>x. cmd_promise x = cmd_promise c) (waitingQueue q) = [c]"
    by (intro filter_eq_single assms(2)) (simp_all add: waitingCount_def)
  from p show "filter (\<lambda>e. cmd_promise (snd e) = cmd_promise c) (pendingCommands q) = []"
    by (simp add: pendingCount_def)
  from l show "promises q (cmd_promise c) = []" by simp
  from n show "cmd_promise c < nextPromise q" .
qed

lemma held_pending:
  assumes "accounted q" and "e \<in> set (pendingCommands q)"
  shows "filter (\<lambda>x. cmd_promise x = cmd_promise (snd e)) (waitingQueue q) = []"
    and "filter (\<lambda>x. cmd_promise (snd x) = cmd_promise (snd e)) (pendingCommands q) = [e]"
    and "promises q (cmd_promise (snd e)) = []"
    and "cmd_promise (snd e) < nextPromise q"
proof -
  from assms(2)
  have "e \<in> set (filter (\<lambda>x. cmd_promise (snd x) = cmd_promise (snd e)) (pendingCommands q))"
    by simp
  then have "0 < pendingCount (cmd_promise (snd e)) q"
    unfolding pendingCount_def by (simp only: length_pos_if_in_set)
  moreover from accountedD [OF assms(1), of "cmd_promise (snd e)"]
  have "pendingCount (cmd_promise (snd e)) q + waitingCount (cmd_promise (snd e)) q
      + length (promises q (cmd_promise (snd e)))
      = (if cmd_promise (snd e) < nextPromise q then 1 else 0)"
    by (simp add: add.commute)
  ultimately
  have w: "waitingCount (cmd_promise (snd e)) q = 0" and p: "pendingCount (cmd_promise (snd e)) q = 1"
    and l: "length (promises q (cmd_promise (snd e))) = 0"
    and n: "cmd_promise (snd e) < nextPromise q"
    using one_holder by blast+
  from w show "filter (\<lambda>x. cmd_promise x = cmd_promise (snd e)) (waitingQueue q) = []"
    by (simp add: waitingCount_def)
  from p show "filter (\<lambda>x. cmd_promise (snd x) = cmd_promise (snd e)) (pendingCommands q) = [e]"
    by (intro filter_eq_single assms(2)) (simp_all add: pendingCount_def)
  from l show "promises q (cmd_promise (snd e)) = []" by simp
  from n show "cmd_promise (snd e) < nextPromise q" .
qed

lemma promises_sweep_nested:
  "promises (sweep now q) p =
     promises q p
       @ map (\<lambda>c. Rejected (never_picked_up (cmd_type c) (commandTimeoutMs (config q))))
           (filter (expired now q) (filter (\<lambda>c. cmd_promise c = p) (waitingQueue q)))
       @ map (\<lambda>e. Rejected (no_result_returned (cmd_type (snd e)) (commandTimeoutMs (config q))))
           (filter (\<lambda>e. expired now q (snd e))
              (filter (\<lambda>e. cmd_promise (snd e) = p) (pendingCommands q)))"
  by (simp add: promises_sweep conj_commute)

lemma timeoutInterval_exec: "\<not> timeoutInterval q \<Longrightarrow> \<not> timeoutInterval (exec e q)"
  by (cases e) (simp_all add: enqueue_def dequeue_def resolve_def heartbeat_def Let_def
      split: list.splits option.splits)

lemma timeoutInterval_run: "\<not> timeoutInterval q \<Longrightarrow> \<not> timeoutInterval (run es q)"
  by (induction es arbitrary: q) (simp_all add: timeoutInterval_exec)

lemma timeout_messages_differ: "never_picked_up ty ms \<noteq> no_result_returned ty' ms'"
proof
  assume "never_picked_up ty ms = no_result_returned ty' ms'"
  then have "last (timed_out_prefix ty ms @ '' plugin never picked it up'')
      = last (timed_out_prefix ty' ms' @ '' plugin did not return a result'')"
    by (simp add: never_picked_up_def no_result_returned_def)
  then show False by simp
qed

lemma config_new [simp]: "config (new_CommandQueue cfg) = cfg"
  by (simp add: new_CommandQueue_def)

lemma promises_sweep_waiting:
  assumes "accounted q" and "c \<in> set (waitingQueue q)"
  shows "promises (sweep now q) (cmd_promise c) =
     (if expired now q c
      then [Rejected (never_picked_up (cmd_type c) (commandTimeoutMs (config q)))] else [])"
  using held_waiting [OF assms] by (simp add: promises_sweep_nested)

lemma promises_sweep_pending:
  assumes "accounted q" and "e \<in> set (pendingCommands q)"
  shows "promises (sweep now q) (cmd_promise (snd e)) =
     (if expired now q (snd e)
      then [Rejected (no_result_returned (cmd_type (snd e)) (commandTimeoutMs (config q)))]
      else [])"
  using held_pending [OF assms] by (simp add: promises_sweep_nested)

section \<open>Connection state along a history\<close>

lemma connectionState_exec:
  "connectionState (exec e q) =
     (case e of
        Heartbeat now version session \<Rightarrow>
          \<lparr> connected = True, lastHeartbeat = now, pluginVersion = version,
            studioSessionId = session \<rparr>
      | _ \<Rightarrow> connectionState q)"
  by (cases e) (simp_all add: enqueue_def dequeue_def resolve_def heartbeat_def Let_def
      split: list.splits option.splits)

lemma isConnected_exec:
  "isConnected now (exec e q) =
     (case e of Heartbeat T version session \<Rightarrow> now - T < heartbeatTimeoutMs (config q)
      | _ \<Rightarrow> isConnected now q)"
  by (simp add: isConnected_def connectionState_exec Let_def split: Event.splits)

lemma isConnected_run:
  "isConnected now (run es q) =
     (case lastHeartbeatOf es of
        None \<Rightarrow> isConnected now q
      | Some T \<Rightarrow> now - T < heartbeatTimeoutMs (config q))"
proof (induction es arbitrary: q)
  case Nil
  show ?case by simp
next
  case (Cons e es)
  show ?case
    by (simp add: Cons.IH isConnected_exec split: option.splits Event.splits)
qed

lemma map_of_None_iff: "map_of es k = None \<longleftrightarrow> k \<notin> fst ` set es"
  by (simp add: map_of_eq_None_iff)

lemma Rejected_exec:
  assumes "Rejected e \<in> set (promises (exec ev q) p)"
  shows "Rejected e \<in> set (promises q p) \<or> timeout_or_shutdown (config q) e"
proof (cases ev)
  case (Tick now)
  with assms show ?thesis
    by (auto simp: promises_sweep timeout_or_shutdown_def split: if_splits)
next
  case Shutdown
  with assms show ?thesis
    by (auto simp: promises_shutdown timeout_or_shutdown_def)
next
  case (Resolve r)
  with assms show ?thesis
    by (auto simp: resolve_def call_resolve_def split: option.splits if_splits)
qed (use assms in \<open>auto simp: enqueue_def dequeue_def heartbeat_def Let_def split: list.splits if_splits\<close>)

lemma Rejected_run:
  "Rejected e \<in> set (promises (run es q) p) \<Longrightarrow>
     Rejected e \<in> set (promises q p) \<or> timeout_or_shutdown (config q) e"
proof (induction es arbitrary: q)
  case Nil
  then show ?case by simp
next
  case (Cons ev es)
  from Cons.prems have "Rejected e \<in> set (promises (run es (exec ev q)) p)" by simp
  from Cons.IH [OF this] Rejected_exec [of e ev q p] show ?case by auto
qed

lemma dequeue_head:
  "waitingQueue q = c # cs \<Longrightarrow>
     dequeue q = (Some (serialized c),
       q\<lparr>waitingQueue := cs, pendingCommands := map_set (cmd_id c) c (pendingCommands q)\<rparr>)"
  by (simp add: dequeue_def serialized_def)

lemma dequeue_empty: "waitingQueue q = [] \<Longrightarrow> dequeue q = (None, q)"
  by (simp add: dequeue_def)

lemma fifo_step:
  "subseq (deliveries [e] q @ map serialized (waitingQueue (exec e q)))
     (map serialized (waitingQueue q) @ enqueued [e] q)"
proof (cases e)
  case (Enqueue now\<^sub>c now uuid ty params)
  then show ?thesis
    by (simp add: enqueue_def Let_def serialized_def)
next
  case Dequeue
  then show ?thesis
    by (cases "waitingQueue q") (simp_all add: dequeue_def serialized_def)
next
  case (Resolve r)
  then show ?thesis
    by (simp add: resolve_def split: option.splits)
next
  case (Heartbeat now version session)
  then show ?thesis
    by (simp add: heartbeat_def)
next
  case (Tick now)
  then show ?thesis
    by (simp add: waitingQueue_sweep subseq_map)
next
  case Shutdown
  then show ?thesis by simp
qed

lemma deliveries_Cons: "deliveries (e # es) q = deliveries [e] q @ deliveries es (exec e q)"
  by (cases e) simp_all

lemma enqueued_Cons: "enqueued (e # es) q = enqueued [e] q @ enqueued es (exec e q)"
  by (cases e) simp_all

lemma fifo_run:
  "subseq (deliveries es q) (map serialized (waitingQueue q) @ enqueued es q)"
proof (induction es arbitrary: q)
  case Nil
  show ?case by simp
next
  case (Cons e es)
  have "subseq (deliveries [e] q @ deliveries es (exec e q))
      (deliveries [e] q @ map serialized (waitingQueue (exec e q)) @ enqueued es (exec e q))"
    using Cons.IH [of "exec e q"] by (simp add: subseq_append')
  also have "subseq \<dots>
      ((map serialized (waitingQueue q) @ enqueued [e] q) @ enqueued es (exec e q))"
    using list_emb_append_mono [OF fifo_step [of e q] subseq_order.refl [of "enqueued es (exec e q)"]]
    by simp
  finally show ?case
    by (simp add: deliveries_Cons [of e es] enqueued_Cons [of e es])
qed

lemma timeoutInterval_kept_exec:
  "e \<noteq> Shutdown \<Longrightarrow> timeoutInterval q \<Longrightarrow> timeoutInterval (exec e q)"
  by (cases e) (simp_all add: enqueue_def dequeue_def resolve_def heartbeat_def Let_def
      split: list.splits option.splits)

lemma timeoutInterval_kept_run:
  "Shutdown \<notin> set es \<Longrightarrow> timeoutInterval q \<Longrightarrow> timeoutInterval (run es q)"
proof (induction es arbitrary: q)
  case Nil
  then show ?case by simp
next
  case (Cons e es)
  from Cons.prems have "e \<noteq> Shutdown" and "Shutdown \<notin> set es" by auto
  with Cons.prems(2) Cons.IH [of "exec e q"] show ?case
    by (simp add: timeoutInterval_kept_exec)
qed

lemma timeoutInterval_reachable:
  "Shutdown \<notin> set es \<Longrightarrow> timeoutInterval (run es (new_CommandQueue cfg))"
  by (rule timeoutInterval_kept_run) (simp_all add: new_CommandQueue_def)

lemma config_enqueue [simp]: "config (snd (enqueue now\<^sub>c now uuid ty params q)) = config q"
  by (simp add: enqueue_def Let_def)

lemma config_dequeue [simp]: "config (snd (dequeue q)) = config q"
  by (simp add: dequeue_def split: list.splits)

lemma keep_exec:
  assumes "mid \<noteq> []"
    and "\<forall>c\<in>set mid. keeps (commandTimeoutMs (config q)) (createdAt c) e"
    and "waitingQueue q = ws @ mid @ rest"
  shows "\<exists>ws' rest'. subseq ws' ws \<and> waitingQueue (exec e q) = ws' @ mid @ rest'
           \<and> (no_enqueue e \<and> rest = [] \<longrightarrow> rest' = [])"
proof -
  from assms(1) obtain c where c: "c \<in> set mid" by (cases mid) auto
  with assms(2) have k: "keeps (commandTimeoutMs (config q)) (createdAt c) e" by blast
  show ?thesis
  proof (cases e)
    case (Enqueue now\<^sub>c now uuid ty params)
    show ?thesis
    proof (cases "isConnected now\<^sub>c q")
      case True
      let ?new = "\<lparr> cmd_id = uuid, cmd_type = ty, cmd_params = params,
                    cmd_promise = nextPromise q, createdAt = now \<rparr>"
      from True Enqueue assms(3)
      have "waitingQueue (exec e q) = ws @ mid @ (rest @ [?new])"
        by (simp add: enqueue_def Let_def)
      with Enqueue show ?thesis
        by (intro exI [of _ ws] exI [of _ "rest @ [?new]"]) simp
    next
      case False
      with Enqueue assms(3) have "waitingQueue (exec e q) = ws @ mid @ rest"
        by (simp add: enqueue_def)
      with Enqueue show ?thesis
        by (intro exI [of _ ws] exI [of _ rest]) simp
    qed
  next
    case Dequeue
    with k show ?thesis by simp
  next
    case Shutdown
    with k show ?thesis by simp
  next
    case (Resolve r)
    with assms(3) have "waitingQueue (exec e q) = ws @ mid @ rest"
      by (simp add: resolve_def split: option.splits)
    then show ?thesis
      by (intro exI [of _ ws] exI [of _ rest]) simp
  next
    case (Heartbeat now version session)
    with assms(3) have "waitingQueue (exec e q) = ws @ mid @ rest"
      by (simp add: heartbeat_def)
    then show ?thesis
      by (intro exI [of _ ws] exI [of _ rest]) simp
  next
    case (Tick now)
    show ?thesis
    proof (cases "timeoutInterval q")
      case True
      let ?P = "\<lambda>cmd. \<not> expired now q cmd"
      from assms(2) Tick have "\<forall>c\<in>set mid. ?P c"
        by (simp add: expired_def)
      then have "filter ?P mid = mid" by simp
      with True Tick assms(3)
      have "waitingQueue (exec e q) = filter ?P ws @ mid @ filter ?P rest"
        by (simp add: waitingQueue_sweep)
      then show ?thesis
        by (intro exI [of _ "filter ?P ws"] exI [of _ "filter ?P rest"]) simp
    next
      case False
      with Tick assms(3) have "waitingQueue (exec e q) = ws @ mid @ rest" by simp
      then show ?thesis
        by (intro exI [of _ ws] exI [of _ rest]) simp
    qed
  qed
qed

lemma keep_run:
  assumes "mid \<noteq> []"
    and "list_all (\<lambda>e. \<forall>c\<in>set mid. keeps (commandTimeoutMs (config q)) (createdAt c) e) es"
    and "waitingQueue q = ws @ mid @ rest"
  shows "\<exists>ws' rest'. subseq ws' ws \<and> waitingQueue (run es q) = ws' @ mid @ rest'
           \<and> (list_all no_enqueue es \<and> rest = [] \<longrightarrow> rest' = [])"
  using assms(2,3)
proof (induction es arbitrary: q ws rest)
  case Nil
  then show ?case
    by (intro exI [of _ ws] exI [of _ rest]) simp
next
  case (Cons e es)
  from Cons.prems(1)
  have ke: "\<forall>c\<in>set mid. keeps (commandTimeoutMs (config q)) (createdAt c) e"
    and kes: "list_all (\<lambda>x. \<forall>c\<in>set mid.
        keeps (commandTimeoutMs (config (exec e q))) (createdAt c) x) es"
    by simp_all
  from keep_exec [OF assms(1) ke Cons.prems(2)]
  obtain ws\<^sub>1 rest\<^sub>1 where s1: "subseq ws\<^sub>1 ws"
    and w1: "waitingQueue (exec e q) = ws\<^sub>1 @ mid @ rest\<^sub>1"
    and r1: "no_enqueue e \<and> rest = [] \<longrightarrow> rest\<^sub>1 = []"
    by blast
  from Cons.IH [OF kes w1]
  obtain ws\<^sub>2 rest\<^sub>2 where s2: "subseq ws\<^sub>2 ws\<^sub>1"
    and w2: "waitingQueue (run es (exec e q)) = ws\<^sub>2 @ mid @ rest\<^sub>2"
    and r2: "list_all no_enqueue es \<and> rest\<^sub>1 = [] \<longrightarrow> rest\<^sub>2 = []"
    by blast
  from s2 s1 have "subseq ws\<^sub>2 ws" by (rule subseq_order.trans)
  with w2 r1 r2 show ?case
    by (intro exI [of _ ws\<^sub>2] exI [of _ rest\<^sub>2]) simp
qed

lemma no_enqueue_run: "list_all no_enqueue es \<Longrightarrow> nextPromise (run es q) = nextPromise q"
proof (induction es arbitrary: q)
  case Nil
  show ?case by simp
next
  case (Cons e es)
  then have "nextPromise (exec e q) = nextPromise q"
    by (cases e) (simp_all add: dequeue_def resolve_def heartbeat_def
        split: list.splits option.splits)
  with Cons show ?case by simp
qed

lemma fifo_scenario:
  assumes ca: "isConnected now\<^sub>a q"
    and qa: "qa = run es\<^sub>1 (snd (enqueue now\<^sub>a ta ua tya pa q))"
    and cb: "isConnected now\<^sub>b qa"
    and qb: "qb = run es\<^sub>2 (snd (enqueue now\<^sub>b tb ub tyb pb qa))"
    and k1: "list_all (\<lambda>e. keeps (commandTimeoutMs (config q)) ta e \<and> no_enqueue e) es\<^sub>1"
    and k2: "list_all (\<lambda>e. keeps (commandTimeoutMs (config q)) ta e
                \<and> keeps (commandTimeoutMs (config q)) tb e) es\<^sub>2"
    and k3: "list_all (keeps (commandTimeoutMs (config q)) tb) es\<^sub>3"
    and A: "A = \<lparr> cmd_id = ua, cmd_type = tya, cmd_params = pa, cmd_promise = nextPromise q,
                createdAt = ta \<rparr>"
    and B: "B = \<lparr> cmd_id = ub, cmd_type = tyb, cmd_params = pb,
                cmd_promise = Suc (nextPromise q), createdAt = tb \<rparr>"
  shows "\<exists>ws rest. subseq ws (waitingQueue q) \<and> waitingQueue qb = ws @ [A, B] @ rest"
    and "waitingQueue q = [] \<Longrightarrow>
          fst (dequeue qb) = Some (serialized A)
        \<and> fst (dequeue (run es\<^sub>3 (snd (dequeue qb)))) = Some (serialized B)"
proof -
  let ?T = "commandTimeoutMs (config q)"
  let ?q1 = "snd (enqueue now\<^sub>a ta ua tya pa q)"
  from ca A have w1: "waitingQueue ?q1 = waitingQueue q @ [A] @ []"
    and n1: "nextPromise ?q1 = Suc (nextPromise q)"
    by (simp_all add: enqueue_def Let_def)
  from k1 A have k1': "list_all (\<lambda>e. \<forall>c\<in>set [A]. keeps (commandTimeoutMs (config ?q1)) (createdAt c) e) es\<^sub>1"
    and ne1: "list_all no_enqueue es\<^sub>1"
    by (simp_all add: list_all_iff)
  from keep_run [OF _ k1' w1] ne1 qa
  obtain ws\<^sub>1 where s1: "subseq ws\<^sub>1 (waitingQueue q)" and wa: "waitingQueue qa = ws\<^sub>1 @ [A]"
    by auto
  from qa n1 ne1 have na: "nextPromise qa = Suc (nextPromise q)"
    by (simp add: no_enqueue_run)
  from qa have cfa: "config qa = config q" by simp
  let ?q2 = "snd (enqueue now\<^sub>b tb ub tyb pb qa)"
  from cb B wa na have w2: "waitingQueue ?q2 = ws\<^sub>1 @ [A, B] @ []"
    by (simp add: enqueue_def Let_def)
  from k2 A B cfa
  have k2': "list_all (\<lambda>e. \<forall>c\<in>set [A, B]. keeps (commandTimeoutMs (config ?q2)) (createdAt c) e) es\<^sub>2"
    by (simp add: list_all_iff)
  from keep_run [OF _ k2' w2] qb
  obtain ws\<^sub>2 rest\<^sub>2 where s2: "subseq ws\<^sub>2 ws\<^sub>1" and wb: "waitingQueue qb = ws\<^sub>2 @ [A, B] @ rest\<^sub>2"
    by auto
  from s2 s1 have s: "subseq ws\<^sub>2 (waitingQueue q)" by (rule subseq_order.trans)
  with wb show "\<exists>ws rest. subseq ws (waitingQueue q) \<and> waitingQueue qb = ws @ [A, B] @ rest"
    by blast
  show "fst (dequeue qb) = Some (serialized A)
        \<and> fst (dequeue (run es\<^sub>3 (snd (dequeue qb)))) = Some (serialized B)"
    if "waitingQueue q = []"
  proof -
    from that s have "ws\<^sub>2 = []" by simp
    with wb have h: "waitingQueue qb = A # B # rest\<^sub>2" by simp
    from dequeue_head [OF h]
    have d1: "fst (dequeue qb) = Some (serialized A)"
      and w3: "waitingQueue (snd (dequeue qb)) = [] @ [B] @ rest\<^sub>2"
      by simp_all
    from qb cfa have "config (snd (dequeue qb)) = config q" by simp
    with k3 B
    have k3': "list_all (\<lambda>e. \<forall>c\<in>set [B].
        keeps (commandTimeoutMs (config (snd (dequeue qb)))) (createdAt c) e) es\<^sub>3"
      by (simp add: list_all_iff)
    from keep_run [OF _ k3' w3]
    obtain ws\<^sub>3 rest\<^sub>3 where "subseq ws\<^sub>3 []"
      and "waitingQueue (run es\<^sub>3 (snd (dequeue qb))) = ws\<^sub>3 @ [B] @ rest\<^sub>3"
      by blast
    then have "waitingQueue (run es\<^sub>3 (snd (dequeue qb))) = B # rest\<^sub>3" by simp
    from dequeue_head [OF this] d1 show ?thesis by simp
  qed
qed

lemma map_delete_absent: "k \<notin> fst ` set (map_delete k es)"
  by (auto simp: map_delete_def)

section \<open>Evaluation of concrete histories\<close>

lemmas queue_eval =
  enqueue_def dequeue_def resolve_def heartbeat_def isConnected_def sweep_def shutdown_def
  new_CommandQueue_def default_config_def call_resolve_def call_reject_def expired_def
  map_delete_def Let_def

lemma default_config_sel:
  "commandTimeoutMs default_config = 30000" "heartbeatTimeoutMs default_config = 10000"
  by (simp_all add: default_config_def)

lemma two_open_commands_state:
  "waitingQueue (run two_open_commands (new_CommandQueue default_config))
     = [\<lparr> cmd_id = ''b'', cmd_type = ''pong'', cmd_params = (), cmd_promise = 1,
          createdAt = 2 \<rparr>]"
  "pendingCommands (run two_open_commands (new_CommandQueue default_config))
     = [(''a'', \<lparr> cmd_id = ''a'', cmd_type = ''ping'', cmd_params = (), cmd_promise = 0,
                 createdAt = 1 \<rparr>)]"
  "nextPromise (run two_open_commands (new_CommandQueue default_config)) = 2"
  "timeoutInterval (run two_open_commands (new_CommandQueue default_config))"
  "promises (run two_open_commands (new_CommandQueue default_config)) p = []"
  by (simp_all add: two_open_commands_def queue_eval)

lemma two_open_commands_uuids: "distinct (uuids two_open_commands)"
  by (simp add: two_open_commands_def)

section \<open>Properties of the command queue\<close>

text \<open>
  In the statements below a \<^emph>\<open>reachable\<close> queue is \<open>run es (new_CommandQueue cfg)\<close>: the queue
  after any history \<open>es\<close> of calls and timer ticks since its construction. The assumption
  \<open>distinct (uuids es)\<close> says that \<open>uuidv4()\<close> did not return the same identifier twice. A
  promise \<open>p < nextPromise q\<close> is the promise of a command that \<open>enqueue\<close> accepted.
\<close>

subsection \<open>Settlement of the promises\<close>

text \<open>
  Claim C1, as stated, fails for a command enqueued after \<open>shutdown()\<close>: the plugin is
  connected (heartbeat at 0), \<open>shutdown()\<close> clears the timer, \<open>enqueue\<close> at time 1 accepts the
  command and returns promise 0, and at time 100000, long after the timeout of 30000 ms, the
  command is still in the waiting queue and no resolving function of promise 0 has been
  called: no sweep runs any more.
\<close>

theorem enqueue_after_shutdown_counterexample:
  "fst (enqueue 1 1 ''a'' ''ping'' ()
         (run [Heartbeat 0 None None, Shutdown]
            (new_CommandQueue default_config :: (unit, unit) CommandQueue))) = Inr 0
   \<and> waitingQueue
         (run [Heartbeat 0 None None, Shutdown, Enqueue 1 1 ''a'' ''ping'' (), Tick 100000]
            (new_CommandQueue default_config :: (unit, unit) CommandQueue))
       = [\<lparr> cmd_id = ''a'', cmd_type = ''ping'', cmd_params = (), cmd_promise = 0,
            createdAt = 1 \<rparr>]
   \<and> promises
         (run [Heartbeat 0 None None, Shutdown, Enqueue 1 1 ''a'' ''ping'' (), Tick 100000]
            (new_CommandQueue default_config :: (unit, unit) CommandQueue)) 0 = []"
  by (simp add: queue_eval)

text \<open>
  Claim C1, amended. In every reachable queue, whether or not \<open>shutdown()\<close> has been called,
  the resolving functions of each promise have been called at most once, and a promise with
  no call yet belongs to a command that the queue still holds. Such a command is settled
  exactly once by a matched result, by a tick of the sweep at which its age exceeds the
  command timeout as long as the timer is registered, and by \<open>shutdown()\<close>, after which every
  promise created so far has exactly one call. The timer is registered in every queue
  reached without a call of \<open>shutdown()\<close>, so the timeout covers every command enqueued
  before \<open>shutdown()\<close>.
\<close>

theorem settles_exactly_once:
  assumes "distinct (uuids es)" and "q = run es (new_CommandQueue cfg)"
  shows "(\<forall>p. length (promises q p) \<le> 1)
    \<and> (\<forall>p. p < nextPromise q \<and> promises q p = [] \<longrightarrow>
          waitingCount p q + pendingCount p q = 1)
    \<and> (\<forall>r c. map_of (pendingCommands q) (result_id r) = Some c \<longrightarrow>
          length (promises (snd (resolve r q)) (cmd_promise c)) = 1)
    \<and> (timeoutInterval q \<longrightarrow>
          (\<forall>c\<in>set (waitingQueue q) \<union> snd ` set (pendingCommands q).
              now - createdAt c > commandTimeoutMs cfg \<longrightarrow>
              length (promises (exec (Tick now) q) (cmd_promise c)) = 1))
    \<and> (\<forall>p. p < nextPromise q \<longrightarrow> length (promises (shutdown q) p) = 1)
    \<and> (Shutdown \<notin> set es \<longrightarrow> timeoutInterval q)"
proof -
  from assms have inv: "queue_inv q"
    using queue_inv_reachable [of es cfg] by simp
  then have acc: "accounted q" by (simp add: queue_inv_def)
  have 1: "\<forall>p. length (promises q p) \<le> 1"
  proof
    fix p
    from accountedD [OF acc, of p] show "length (promises q p) \<le> 1"
      by (simp split: if_splits)
  qed
  have 2: "\<forall>p. p < nextPromise q \<and> promises q p = [] \<longrightarrow>
          waitingCount p q + pendingCount p q = 1"
  proof (intro allI impI)
    fix p assume "p < nextPromise q \<and> promises q p = []"
    with accountedD [OF acc, of p] show "waitingCount p q + pendingCount p q = 1"
      by simp
  qed
  have 3: "\<forall>r c. map_of (pendingCommands q) (result_id r) = Some c \<longrightarrow>
          length (promises (snd (resolve r q)) (cmd_promise c)) = 1"
  proof (intro allI impI)
    fix r :: "'b CommandResult" and c
    assume m: "map_of (pendingCommands q) (result_id r) = Some c"
    then have "(result_id r, c) \<in> set (pendingCommands q)" by (rule map_of_SomeD)
    from held_pending(3) [OF acc this] have "promises q (cmd_promise c) = []" by simp
    with m show "length (promises (snd (resolve r q)) (cmd_promise c)) = 1"
      by (simp add: resolve_def call_resolve_def)
  qed
  have 4: "timeoutInterval q \<longrightarrow>
          (\<forall>c\<in>set (waitingQueue q) \<union> snd ` set (pendingCommands q).
              now - createdAt c > commandTimeoutMs cfg \<longrightarrow>
              length (promises (exec (Tick now) q) (cmd_promise c)) = 1)"
  proof (intro impI ballI)
    fix c
    assume t: "timeoutInterval q"
      and m: "c \<in> set (waitingQueue q) \<union> snd ` set (pendingCommands q)"
      and x: "now - createdAt c > commandTimeoutMs cfg"
    from assms(2) have cfg: "config q = cfg" by simp
    from x have ex: "expired now q c" by (simp add: expired_def cfg)
    from m have "length (promises (sweep now q) (cmd_promise c)) = 1"
    proof
      assume "c \<in> set (waitingQueue q)"
      from promises_sweep_waiting [OF acc this, of now] ex show ?thesis by simp
    next
      assume "c \<in> snd ` set (pendingCommands q)"
      then obtain e where e: "e \<in> set (pendingCommands q)" and c: "c = snd e" by auto
      from promises_sweep_pending [OF acc e, of now] ex c show ?thesis by simp
    qed
    with t show "length (promises (exec (Tick now) q) (cmd_promise c)) = 1" by simp
  qed
  have 5: "\<forall>p. p < nextPromise q \<longrightarrow> length (promises (shutdown q) p) = 1"
  proof (intro allI impI)
    fix p assume "p < nextPromise q"
    with accountedD [OF acc, of p] show "length (promises (shutdown q) p) = 1"
      by (simp add: promises_shutdown waitingCount_def pendingCount_def)
  qed
  have 6: "Shutdown \<notin> set es \<longrightarrow> timeoutInterval q"
    using assms(2) by (simp add: timeoutInterval_reachable)
  from 1 2 3 4 5 6 show ?thesis by blast
qed

theorem settles_exactly_once_witness:
  "length (promises (run two_open_commands (new_CommandQueue default_config)) 0) \<le> 1
   \<and> length (promises
         (snd (resolve \<lparr> result_id = ''a'', success = True, data = Some (), error = None \<rparr>
            (run two_open_commands (new_CommandQueue default_config)))) 0) = 1
   \<and> length (promises
         (exec (Tick 30003) (run two_open_commands (new_CommandQueue default_config))) 0) = 1
   \<and> length (promises
         (exec (Tick 30003) (run two_open_commands (new_CommandQueue default_config))) 1) = 1
   \<and> length (promises
         (shutdown (run two_open_commands (new_CommandQueue default_config))) 0) = 1
   \<and> length (promises
         (shutdown (run two_open_commands (new_CommandQueue default_config))) 1) = 1
   \<and> timeoutInterval (run two_open_commands (new_CommandQueue default_config))"
proof -
  define q where "q = run two_open_commands (new_CommandQueue default_config)"
  define r :: "unit CommandResult"
    where "r = \<lparr> result_id = ''a'', success = True, data = Some (), error = None \<rparr>"
  note st = two_open_commands_state [folded q_def]
  note spec = settles_exactly_once [OF two_open_commands_uuids q_def, where now = 30003]
  from spec have 1: "length (promises q 0) \<le> 1"
    by blast
  have "map_of (pendingCommands q) (result_id r)
      = Some \<lparr> cmd_id = ''a'', cmd_type = ''ping'', cmd_params = (), cmd_promise = 0,
          createdAt = 1 \<rparr>"
    by (simp add: st r_def)
  with spec have 2: "length (promises (snd (resolve r q)) 0) = 1"
    by fastforce
  from spec have 3: "length (promises (exec (Tick 30003) q) 0) = 1"
    and 4: "length (promises (exec (Tick 30003) q) 1) = 1"
    by (simp_all add: st default_config_sel)
  from spec have 5: "length (promises (shutdown q) 0) = 1"
    and 6: "length (promises (shutdown q) 1) = 1"
    by (simp_all add: st)
  have "Shutdown \<notin> set two_open_commands"
    by (simp add: two_open_commands_def)
  with spec have 7: "timeoutInterval q"
    by blast
  from 1 2 3 4 5 6 7 show ?thesis
    unfolding q_def r_def by blast
qed

subsection \<open>The two collections\<close>

text \<open>
  Claim C2. After every history of operations (\<open>enqueue\<close>, \<open>dequeue\<close>, \<open>resolve\<close>,
  \<open>heartbeat\<close>, sweep ticks, \<open>shutdown\<close>), a command that was enqueued and has not been settled
  occurs exactly once in the waiting queue and the pending map taken together, and a settled
  command occurs in neither; no identifier occurs twice in the two collections.
\<close>

theorem registry_partition:
  assumes "distinct (uuids es)" and "q = run es (new_CommandQueue cfg)"
  shows "distinct (live_ids q)
    \<and> (\<forall>p. waitingCount p q + pendingCount p q
          = (if p < nextPromise q \<and> promises q p = [] then 1 else 0))"
proof -
  from assms have inv: "queue_inv q"
    using queue_inv_reachable [of es cfg] by simp
  then have acc: "accounted q" and dl: "distinct (live_ids q)"
    by (simp_all add: queue_inv_def)
  have "waitingCount p q + pendingCount p q
          = (if p < nextPromise q \<and> promises q p = [] then 1 else 0)" for p
  proof (cases "promises q p = []")
    case True
    with accountedD [OF acc, of p] show ?thesis by simp
  next
    case False
    then obtain n where "length (promises q p) = Suc n"
      by (cases "promises q p") auto
    with accountedD [OF acc, of p] False show ?thesis
      by (simp split: if_splits)
  qed
  with dl show ?thesis by simp
qed

theorem registry_partition_witness:
  "waitingCount 0 (run two_open_commands (new_CommandQueue default_config)) = 0
   \<and> pendingCount 0 (run two_open_commands (new_CommandQueue default_config)) = 1
   \<and> waitingCount 1 (run two_open_commands (new_CommandQueue default_config)) = 1
   \<and> pendingCount 1 (run two_open_commands (new_CommandQueue default_config)) = 0
   \<and> waitingCount 0 (shutdown (run two_open_commands (new_CommandQueue default_config)))
       + pendingCount 0 (shutdown (run two_open_commands (new_CommandQueue default_config))) = 0
   \<and> distinct (live_ids (run two_open_commands (new_CommandQueue default_config)))"
proof -
  have d: "distinct (uuids (two_open_commands @ [Shutdown]))"
    by (simp add: two_open_commands_def)
  have r: "shutdown (run two_open_commands (new_CommandQueue default_config))
      = run (two_open_commands @ [Shutdown]) (new_CommandQueue default_config)"
    by (simp add: two_open_commands_def)
  from registry_partition [OF two_open_commands_uuids refl, where cfg = default_config]
  have 1: "distinct (live_ids (run two_open_commands (new_CommandQueue default_config)))"
    by blast
  from registry_partition [OF d r]
  have 2: "waitingCount 0 (shutdown (run two_open_commands (new_CommandQueue default_config)))
       + pendingCount 0 (shutdown (run two_open_commands (new_CommandQueue default_config))) = 0"
    by (simp add: promises_shutdown two_open_commands_state)
  from 1 2 show ?thesis
    by (simp add: waitingCount_def pendingCount_def two_open_commands_state)
qed

subsection \<open>The timeout sweep\<close>

text \<open>
  Claim C3, as stated, fails at the boundary: a command whose age equals the command timeout
  (enqueued at 0, tick at 30000, timeout 30000 ms) is neither removed nor rejected by the
  tick, in the waiting queue and in the pending map alike. The test of the sweep is
  \<open>now - cmd.createdAt > commandTimeoutMs\<close>.
\<close>

theorem sweep_at_deadline_counterexample:
  "waitingQueue (run [Heartbeat 0 None None, Enqueue 0 0 ''a'' ''ping'' (), Tick 30000]
       (new_CommandQueue default_config :: (unit, unit) CommandQueue))
     = [\<lparr> cmd_id = ''a'', cmd_type = ''ping'', cmd_params = (), cmd_promise = 0,
          createdAt = 0 \<rparr>]
   \<and> promises (run [Heartbeat 0 None None, Enqueue 0 0 ''a'' ''ping'' (), Tick 30000]
       (new_CommandQueue default_config :: (unit, unit) CommandQueue)) 0 = []
   \<and> pendingCommands (run [Heartbeat 0 None None, Enqueue 0 0 ''a'' ''ping'' (), Dequeue,
         Tick 30000] (new_CommandQueue default_config :: (unit, unit) CommandQueue))
     = [(''a'', \<lparr> cmd_id = ''a'', cmd_type = ''ping'', cmd_params = (), cmd_promise = 0,
                 createdAt = 0 \<rparr>)]
   \<and> promises (run [Heartbeat 0 None None, Enqueue 0 0 ''a'' ''ping'' (), Dequeue,
         Tick 30000] (new_CommandQueue default_config :: (unit, unit) CommandQueue)) 0 = []"
  by (simp add: queue_eval)

text \<open>
  Claim C3, amended. While the timer is registered every tick runs the sweep, and the sweep
  goes through both collections: it removes from the waiting queue exactly the commands whose
  age is strictly greater than the command timeout and rejects each of them once with the
  error "plugin never picked it up"; it removes from the pending map exactly the commands
  whose age is strictly greater than the same timeout and rejects each of them once with the
  error "plugin did not return a result"; commands whose age is at most the timeout stay
  and are not rejected. The two errors are different for all command types.
\<close>

theorem sweep_spec:
  assumes "distinct (uuids es)" and "q = run es (new_CommandQueue cfg)"
  shows "(timeoutInterval q \<longrightarrow> exec (Tick now) q = sweep now q)
    \<and> waitingQueue (sweep now q) =
        filter (\<lambda>c. \<not> now - createdAt c > commandTimeoutMs cfg) (waitingQueue q)
    \<and> pendingCommands (sweep now q) =
        filter (\<lambda>e. \<not> now - createdAt (snd e) > commandTimeoutMs cfg) (pendingCommands q)
    \<and> (\<forall>c\<in>set (waitingQueue q). now - createdAt c > commandTimeoutMs cfg \<longrightarrow>
          promises (sweep now q) (cmd_promise c)
            = [Rejected (never_picked_up (cmd_type c) (commandTimeoutMs cfg))])
    \<and> (\<forall>e\<in>set (pendingCommands q). now - createdAt (snd e) > commandTimeoutMs cfg \<longrightarrow>
          promises (sweep now q) (cmd_promise (snd e))
            = [Rejected (no_result_returned (cmd_type (snd e)) (commandTimeoutMs cfg))])
    \<and> (\<forall>c\<in>set (waitingQueue q) \<union> snd ` set (pendingCommands q).
          \<not> now - createdAt c > commandTimeoutMs cfg \<longrightarrow>
          promises (sweep now q) (cmd_promise c) = [])
    \<and> (\<forall>ty ty'. never_picked_up ty (commandTimeoutMs cfg)
          \<noteq> no_result_returned ty' (commandTimeoutMs cfg))"
proof -
  from assms have inv: "queue_inv q"
    using queue_inv_reachable [of es cfg] by simp
  then have acc: "accounted q" and dk: "distinct (map fst (pendingCommands q))"
    by (simp_all add: queue_inv_def live_ids_def)
  from assms(2) have cfg: "config q = cfg" by simp
  have ex: "\<And>c. expired now q c \<longleftrightarrow> now - createdAt c > commandTimeoutMs cfg"
    by (simp add: expired_def cfg)
  have 1: "timeoutInterval q \<longrightarrow> exec (Tick now) q = sweep now q" by simp
  have 2: "waitingQueue (sweep now q) =
        filter (\<lambda>c. \<not> now - createdAt c > commandTimeoutMs cfg) (waitingQueue q)"
    by (simp add: waitingQueue_sweep ex)
  have 3: "pendingCommands (sweep now q) =
        filter (\<lambda>e. \<not> now - createdAt (snd e) > commandTimeoutMs cfg) (pendingCommands q)"
    by (simp add: pendingCommands_sweep [OF dk] ex)
  have 4: "\<forall>c\<in>set (waitingQueue q). now - createdAt c > commandTimeoutMs cfg \<longrightarrow>
          promises (sweep now q) (cmd_promise c)
            = [Rejected (never_picked_up (cmd_type c) (commandTimeoutMs cfg))]"
  proof (intro ballI impI)
    fix c assume c: "c \<in> set (waitingQueue q)" and "now - createdAt c > commandTimeoutMs cfg"
    then have "expired now q c" by (simp add: ex)
    with held_waiting [OF acc c]
    show "promises (sweep now q) (cmd_promise c)
            = [Rejected (never_picked_up (cmd_type c) (commandTimeoutMs cfg))]"
      by (simp add: promises_sweep_nested cfg)
  qed
  have 5: "\<forall>e\<in>set (pendingCommands q). now - createdAt (snd e) > commandTimeoutMs cfg \<longrightarrow>
          promises (sweep now q) (cmd_promise (snd e))
            = [Rejected (no_result_returned (cmd_type (snd e)) (commandTimeoutMs cfg))]"
  proof (intro ballI impI)
    fix e assume e: "e \<in> set (pendingCommands q)"
      and "now - createdAt (snd e) > commandTimeoutMs cfg"
    then have "expired now q (snd e)" by (simp add: ex)
    with held_pending [OF acc e]
    show "promises (sweep now q) (cmd_promise (snd e))
            = [Rejected (no_result_returned (cmd_type (snd e)) (commandTimeoutMs cfg))]"
      by (simp add: promises_sweep_nested cfg)
  qed
  have 6: "\<forall>c\<in>set (waitingQueue q) \<union> snd ` set (pendingCommands q).
          \<not> now - createdAt c > commandTimeoutMs cfg \<longrightarrow>
          promises (sweep now q) (cmd_promise c) = []"
  proof (intro ballI impI)
    fix c assume m: "c \<in> set (waitingQueue q) \<union> snd ` set (pendingCommands q)"
      and ne: "\<not> now - createdAt c > commandTimeoutMs cfg"
    from m show "promises (sweep now q) (cmd_promise c) = []"
    proof
      assume c: "c \<in> set (waitingQueue q)"
      from ne have "\<not> expired now q c" by (simp add: ex)
      with held_waiting [OF acc c] show ?thesis
        by (simp add: promises_sweep_nested)
    next
      assume "c \<in> snd ` set (pendingCommands q)"
      then obtain e where e: "e \<in> set (pendingCommands q)" and c: "c = snd e" by auto
      from ne c have "\<not> expired now q (snd e)" by (simp add: ex)
      with held_pending [OF acc e] show ?thesis
        by (simp add: promises_sweep_nested c)
    qed
  qed
  have 7: "\<forall>ty ty'. never_picked_up ty (commandTimeoutMs cfg)
          \<noteq> no_result_returned ty' (commandTimeoutMs cfg)"
    by (simp add: timeout_messages_differ)
  from 1 2 3 4 5 6 7 show ?thesis by blast
qed

theorem sweep_spec_witness:
  "promises (sweep 30003 (run two_open_commands (new_CommandQueue default_config))) 0
       = [Rejected (no_result_returned ''ping'' 30000)]
   \<and> promises (sweep 30003 (run two_open_commands (new_CommandQueue default_config))) 1
       = [Rejected (never_picked_up ''pong'' 30000)]
   \<and> waitingQueue (sweep 30003 (run two_open_commands (new_CommandQueue default_config))) = []
   \<and> pendingCommands (sweep 30003 (run two_open_commands (new_CommandQueue default_config))) = []
   \<and> exec (Tick 30003) (run two_open_commands (new_CommandQueue default_config))
       = sweep 30003 (run two_open_commands (new_CommandQueue default_config))"
  using sweep_spec [OF two_open_commands_uuids refl, where now = 30003 and cfg = default_config]
  by (simp add: two_open_commands_state default_config_sel)

subsection \<open>Enqueue and dequeue\<close>

text \<open>
  Claim C4. \<open>enqueue\<close> checks the connection first. When the plugin is not connected it
  returns the promise rejected with the not-connected error and the queue is unchanged. When
  connected it appends one command, carrying the generated identifier and the current
  timestamp, at the tail of the waiting queue, changes nothing else of the two collections,
  and returns the new promise.
\<close>

theorem enqueue_spec:
  "(\<not> isConnected now\<^sub>c q \<longrightarrow> enqueue now\<^sub>c now uuid ty params q = (Inl not_connected, q))
   \<and> (isConnected now\<^sub>c q \<longrightarrow>
        fst (enqueue now\<^sub>c now uuid ty params q) = Inr (nextPromise q)
      \<and> waitingQueue (snd (enqueue now\<^sub>c now uuid ty params q)) =
          waitingQueue q @ [\<lparr> cmd_id = uuid, cmd_type = ty, cmd_params = params,
                              cmd_promise = nextPromise q, createdAt = now \<rparr>]
      \<and> pendingCommands (snd (enqueue now\<^sub>c now uuid ty params q)) = pendingCommands q
      \<and> connectionState (snd (enqueue now\<^sub>c now uuid ty params q)) = connectionState q
      \<and> promises (snd (enqueue now\<^sub>c now uuid ty params q)) = promises q)"
  by (simp add: enqueue_def Let_def)

theorem enqueue_spec_witness:
  "enqueue 5 5 ''a'' ''ping'' () (new_CommandQueue default_config :: (unit, unit) CommandQueue)
     = (Inl not_connected, new_CommandQueue default_config)
   \<and> map cmd_id (waitingQueue (snd (enqueue 5 6 ''a'' ''ping'' ()
        (heartbeat 0 None None (new_CommandQueue default_config :: (unit, unit) CommandQueue)))))
     = [''a'']"
proof -
  let ?q0 = "new_CommandQueue default_config :: (unit, unit) CommandQueue"
  have a: "\<not> isConnected 5 ?q0"
    by (simp add: isConnected_def new_CommandQueue_def)
  have b: "isConnected 5 (heartbeat 0 None None ?q0)"
    by (simp add: isConnected_def heartbeat_def new_CommandQueue_def default_config_def)
  from a enqueue_spec [of 5 ?q0 5 "''a''" "''ping''" "()"]
  have 1: "enqueue 5 5 ''a'' ''ping'' () ?q0 = (Inl not_connected, ?q0)" by blast
  from b enqueue_spec [of 5 "heartbeat 0 None None ?q0" 6 "''a''" "''ping''" "()"]
  have "waitingQueue (snd (enqueue 5 6 ''a'' ''ping'' () (heartbeat 0 None None ?q0))) =
      waitingQueue (heartbeat 0 None None ?q0) @ [\<lparr> cmd_id = ''a'', cmd_type = ''ping'', cmd_params = (),
                              cmd_promise = nextPromise (heartbeat 0 None None ?q0), createdAt = 6 \<rparr>]"
    by blast
  then have 2: "map cmd_id (waitingQueue (snd (enqueue 5 6 ''a'' ''ping'' () (heartbeat 0 None None ?q0)))) = [''a'']"
    by (simp add: heartbeat_def new_CommandQueue_def)
  from 1 2 show ?thesis by simp
qed

text \<open>
  Claim C5. Delivery is first in, first out.
  \<^item> \<open>dequeue()\<close> on any queue returns the view of the head of the waiting queue, moves that
    command to the pending map and leaves the other waiting commands in their order; on an
    empty waiting queue it returns \<open>null\<close> and changes nothing. The view is a
    \<open>SerializedCommand\<close>: identifier, type and parameters, and no callback.
  \<^item> Along every history, whatever calls and ticks it contains, the views delivered are, in
    their order, a subsequence of the commands that waited at the start followed by the
    commands accepted by \<open>enqueue\<close>, in the order of their acceptance: no command overtakes
    an older one.
  \<^item> Two commands A and B enqueued in that order while connected, with no other enqueue
    between them and no delivery, shutdown or expiry of A or B before they are delivered
    (heartbeats, results, ticks that leave A and B in place, and later enqueues may occur),
    stand next to each other in the waiting queue, behind older commands only; when nothing
    was waiting before A, the first \<open>dequeue()\<close> returns the view of A and the next one the
    view of B.
\<close>

theorem dequeue_fifo:
  "(waitingQueue q' = c # cs \<longrightarrow>
      dequeue q' = (Some (serialized c),
        q'\<lparr>waitingQueue := cs,
           pendingCommands := map_set (cmd_id c) c (pendingCommands q')\<rparr>))
   \<and> (waitingQueue q' = [] \<longrightarrow> dequeue q' = (None, q'))
   \<and> subseq (deliveries es q') (map serialized (waitingQueue q') @ enqueued es q')
   \<and> subseq (deliveries es (new_CommandQueue cfg)) (enqueued es (new_CommandQueue cfg))
   \<and> (isConnected now\<^sub>a q
        \<and> qa = run es\<^sub>1 (snd (enqueue now\<^sub>a ta ua tya pa q))
        \<and> isConnected now\<^sub>b qa
        \<and> qb = run es\<^sub>2 (snd (enqueue now\<^sub>b tb ub tyb pb qa))
        \<and> list_all (\<lambda>e. keeps (commandTimeoutMs (config q)) ta e \<and> no_enqueue e) es\<^sub>1
        \<and> list_all (\<lambda>e. keeps (commandTimeoutMs (config q)) ta e
                      \<and> keeps (commandTimeoutMs (config q)) tb e) es\<^sub>2
        \<and> list_all (keeps (commandTimeoutMs (config q)) tb) es\<^sub>3
      \<longrightarrow> (\<exists>ws rest. subseq ws (waitingQueue q)
            \<and> waitingQueue qb = ws
                @ [\<lparr> cmd_id = ua, cmd_type = tya, cmd_params = pa,
                     cmd_promise = nextPromise q, createdAt = ta \<rparr>,
                   \<lparr> cmd_id = ub, cmd_type = tyb, cmd_params = pb,
                     cmd_promise = Suc (nextPromise q), createdAt = tb \<rparr>]
                @ rest)
        \<and> (waitingQueue q = [] \<longrightarrow>
              fst (dequeue qb) = Some \<lparr> ser_id = ua, ser_type = tya, ser_params = pa \<rparr>
            \<and> fst (dequeue (run es\<^sub>3 (snd (dequeue qb))))
                = Some \<lparr> ser_id = ub, ser_type = tyb, ser_params = pb \<rparr>))"
proof -
  have 1: "waitingQueue q' = c # cs \<longrightarrow>
      dequeue q' = (Some (serialized c),
        q'\<lparr>waitingQueue := cs,
           pendingCommands := map_set (cmd_id c) c (pendingCommands q')\<rparr>)"
    by (simp add: dequeue_head)
  have 2: "waitingQueue q' = [] \<longrightarrow> dequeue q' = (None, q')"
    by (simp add: dequeue_empty)
  have 3: "subseq (deliveries es q') (map serialized (waitingQueue q') @ enqueued es q')"
    by (rule fifo_run)
  have 4: "subseq (deliveries es (new_CommandQueue cfg)) (enqueued es (new_CommandQueue cfg))"
    using fifo_run [of es "new_CommandQueue cfg"] by (simp add: new_CommandQueue_def)
  have 5: "(\<exists>ws rest. subseq ws (waitingQueue q)
            \<and> waitingQueue qb = ws
                @ [\<lparr> cmd_id = ua, cmd_type = tya, cmd_params = pa,
                     cmd_promise = nextPromise q, createdAt = ta \<rparr>,
                   \<lparr> cmd_id = ub, cmd_type = tyb, cmd_params = pb,
                     cmd_promise = Suc (nextPromise q), createdAt = tb \<rparr>]
                @ rest)
        \<and> (waitingQueue q = [] \<longrightarrow>
              fst (dequeue qb) = Some \<lparr> ser_id = ua, ser_type = tya, ser_params = pa \<rparr>
            \<and> fst (dequeue (run es\<^sub>3 (snd (dequeue qb))))
                = Some \<lparr> ser_id = ub, ser_type = tyb, ser_params = pb \<rparr>)"
    if h: "isConnected now\<^sub>a q
        \<and> qa = run es\<^sub>1 (snd (enqueue now\<^sub>a ta ua tya pa q))
        \<and> isConnected now\<^sub>b qa
        \<and> qb = run es\<^sub>2 (snd (enqueue now\<^sub>b tb ub tyb pb qa))
        \<and> list_all (\<lambda>e. keeps (commandTimeoutMs (config q)) ta e \<and> no_enqueue e) es\<^sub>1
        \<and> list_all (\<lambda>e. keeps (commandTimeoutMs (config q)) ta e
                      \<and> keeps (commandTimeoutMs (config q)) tb e) es\<^sub>2
        \<and> list_all (keeps (commandTimeoutMs (config q)) tb) es\<^sub>3"
  proof -
    from h have ca: "isConnected now\<^sub>a q"
      and qa: "qa = run es\<^sub>1 (snd (enqueue now\<^sub>a ta ua tya pa q))"
      and cb: "isConnected now\<^sub>b qa"
      and qb: "qb = run es\<^sub>2 (snd (enqueue now\<^sub>b tb ub tyb pb qa))"
      and k1: "list_all (\<lambda>e. keeps (commandTimeoutMs (config q)) ta e \<and> no_enqueue e) es\<^sub>1"
      and k2: "list_all (\<lambda>e. keeps (commandTimeoutMs (config q)) ta e
                      \<and> keeps (commandTimeoutMs (config q)) tb e) es\<^sub>2"
      and k3: "list_all (keeps (commandTimeoutMs (config q)) tb) es\<^sub>3"
      by blast+
    note sc = fifo_scenario [OF ca qa cb qb k1 k2 k3 refl refl]
    from sc(1) sc(2) show ?thesis
      by (simp add: serialized_def)
  qed
  from 1 2 3 4 5 show ?thesis by blast
qed

theorem dequeue_fifo_witness:
  "fst (dequeue (run [Heartbeat 0 None None, Enqueue 1 1 ''a'' ''ping'' (), Tick 1000,
            Enqueue 2000 2000 ''b'' ''pong'' (), Enqueue 2500 2500 ''c'' ''third'' (),
            Tick 3000]
          (new_CommandQueue default_config :: (unit, unit) CommandQueue)))
     = Some \<lparr> ser_id = ''a'', ser_type = ''ping'', ser_params = () \<rparr>
   \<and> fst (dequeue (run [Tick 4000, Heartbeat 4500 None None]
        (snd (dequeue (run [Heartbeat 0 None None, Enqueue 1 1 ''a'' ''ping'' (), Tick 1000,
            Enqueue 2000 2000 ''b'' ''pong'' (), Enqueue 2500 2500 ''c'' ''third'' (),
            Tick 3000]
          (new_CommandQueue default_config :: (unit, unit) CommandQueue))))))
     = Some \<lparr> ser_id = ''b'', ser_type = ''pong'', ser_params = () \<rparr>"
proof -
  define q :: "(unit, unit) CommandQueue"
    where "q = heartbeat 0 None None (new_CommandQueue default_config)"
  define qa where "qa = run [Tick 1000] (snd (enqueue 1 1 ''a'' ''ping'' () q))"
  define qb where "qb = run [Enqueue 2500 2500 ''c'' ''third'' (), Tick 3000]
      (snd (enqueue 2000 2000 ''b'' ''pong'' () qa))"
  have a: "isConnected 1 q" and b: "isConnected 2000 qa" and e: "waitingQueue q = []"
    and T: "commandTimeoutMs (config q) = 30000"
    by (simp_all add: q_def qa_def queue_eval)
  have k1: "list_all (\<lambda>e. keeps (commandTimeoutMs (config q)) 1 e \<and> no_enqueue e)
      [Tick 1000 :: (unit, unit) Event]"
    and k2: "list_all (\<lambda>e. keeps (commandTimeoutMs (config q)) 1 e
          \<and> keeps (commandTimeoutMs (config q)) 2000 e)
      [Enqueue 2500 2500 ''c'' ''third'' (), Tick 3000 :: (unit, unit) Event]"
    and k3: "list_all (keeps (commandTimeoutMs (config q)) 2000)
      [Tick 4000, Heartbeat 4500 None None :: (unit, unit) Event]"
    by (simp_all add: T)
  from a b e k1 k2 k3 qa_def qb_def
    dequeue_fifo [where q = q and qa = qa and qb = qb and now\<^sub>a = 1 and now\<^sub>b = 2000
      and ta = 1 and tb = 2000 and ua = "''a''" and ub = "''b''" and tya = "''ping''"
      and tyb = "''pong''" and pa = "()" and pb = "()" and es\<^sub>1 = "[Tick 1000]"
      and es\<^sub>2 = "[Enqueue 2500 2500 ''c'' ''third'' (), Tick 3000]"
      and es\<^sub>3 = "[Tick 4000, Heartbeat 4500 None None]"]
  have "fst (dequeue qb) = Some \<lparr> ser_id = ''a'', ser_type = ''ping'', ser_params = () \<rparr>
      \<and> fst (dequeue (run [Tick 4000, Heartbeat 4500 None None] (snd (dequeue qb))))
          = Some \<lparr> ser_id = ''b'', ser_type = ''pong'', ser_params = () \<rparr>"
    by blast
  moreover have "qb = run [Heartbeat 0 None None, Enqueue 1 1 ''a'' ''ping'' (), Tick 1000,
            Enqueue 2000 2000 ''b'' ''pong'' (), Enqueue 2500 2500 ''c'' ''third'' (),
            Tick 3000] (new_CommandQueue default_config)"
    by (simp add: qb_def qa_def q_def)
  ultimately show ?thesis by (simp only:)
qed

subsection \<open>Heartbeats and connection\<close>

text \<open>
  Claim C6. \<open>isConnected()\<close> is false as long as no heartbeat has been recorded since the
  construction of the queue; otherwise it is true exactly when the time elapsed since the
  most recent heartbeat is strictly less than the heartbeat timeout. After a heartbeat at
  time \<open>T\<close> a check at time \<open>now\<close> answers true exactly when \<open>now < T + heartbeatTimeoutMs\<close>.
  The answer is computed from the clock reading of the call itself.
\<close>

theorem isConnected_spec:
  "isConnected now (run es (new_CommandQueue cfg)) =
     (case lastHeartbeatOf es of
        None \<Rightarrow> False
      | Some T \<Rightarrow> now - T < heartbeatTimeoutMs cfg)
   \<and> (isConnected now (heartbeat T version session q) \<longleftrightarrow> now < T + heartbeatTimeoutMs (config q))"
proof -
  have "isConnected now (new_CommandQueue cfg :: ('a, 'b) CommandQueue) = False"
    by (simp add: isConnected_def new_CommandQueue_def)
  moreover have "config (new_CommandQueue cfg :: ('a, 'b) CommandQueue) = cfg"
    by (simp add: new_CommandQueue_def)
  ultimately have "isConnected now (run es (new_CommandQueue cfg :: ('a, 'b) CommandQueue)) =
     (case lastHeartbeatOf es of None \<Rightarrow> False | Some T \<Rightarrow> now - T < heartbeatTimeoutMs cfg)"
    by (simp add: isConnected_run split: option.splits)
  moreover have "isConnected now (heartbeat T version session q) \<longleftrightarrow> now < T + heartbeatTimeoutMs (config q)"
    by (auto simp: isConnected_def heartbeat_def Let_def)
  ultimately show ?thesis by simp
qed

theorem isConnected_spec_witness:
  "isConnected 9999 (run [Heartbeat 0 None None, Dequeue] (new_CommandQueue default_config :: (unit, unit) CommandQueue))
   \<and> \<not> isConnected 10000 (run [Heartbeat 0 None None, Dequeue] (new_CommandQueue default_config :: (unit, unit) CommandQueue))
   \<and> \<not> isConnected 5 (run [Dequeue, Tick 3] (new_CommandQueue default_config :: (unit, unit) CommandQueue))"
proof -
  note spec = isConnected_spec [where cfg = default_config, THEN conjunct1]
  show ?thesis
    unfolding spec by (simp add: default_config_def)
qed

text \<open>
  Claim C9. Every heartbeat replaces the whole connection state by
  \<open>{connected: true, lastHeartbeat: now, pluginVersion, studioSessionId}\<close> built from its own
  arguments: a version or session identifier stored by an earlier heartbeat is erased when
  the later heartbeat omits it.
\<close>

theorem heartbeat_spec:
  "connectionState (heartbeat now version session q) =
     \<lparr> connected = True, lastHeartbeat = now, pluginVersion = version, studioSessionId = session \<rparr>
   \<and> pluginVersion (connectionState
        (heartbeat now' None session' (heartbeat now (Some v) session q))) = None
   \<and> studioSessionId (connectionState
        (heartbeat now' version' None (heartbeat now version (Some s) q))) = None"
  by (simp add: heartbeat_def)

subsection \<open>Results\<close>

text \<open>
  Claim C7. \<open>resolve(result)\<close> with an identifier that is not a key of the pending map
  returns false and leaves the queue as it is, so the counts reported by \<open>getStats()\<close> are
  unchanged and no resolving function is called. With an identifier that is a key, it
  removes the entry, calls the \<open>resolve\<close> callback of the command with the result, and
  returns true; the waiting queue is untouched. A second \<open>resolve\<close> with the same result
  returns false and changes nothing.
\<close>

theorem resolve_spec:
  "(result_id r \<notin> fst ` set (pendingCommands q) \<longrightarrow>
       resolve r q = (False, q) \<and> getStats now (snd (resolve r q)) = getStats now q)
   \<and> (map_of (pendingCommands q) (result_id r) = Some cmd \<longrightarrow>
        fst (resolve r q) = True
      \<and> pendingCommands (snd (resolve r q)) =
          filter (\<lambda>e. fst e \<noteq> result_id r) (pendingCommands q)
      \<and> waitingQueue (snd (resolve r q)) = waitingQueue q
      \<and> promises (snd (resolve r q)) =
          (promises q)(cmd_promise cmd := promises q (cmd_promise cmd) @ [Resolved r]))
   \<and> resolve r (snd (resolve r q)) = (False, snd (resolve r q))"
proof -
  have "result_id r \<notin> fst ` set (pendingCommands (snd (resolve r q)))"
    by (simp add: resolve_def map_of_None_iff map_delete_absent split: option.splits)
  then have "resolve r (snd (resolve r q)) = (False, snd (resolve r q))"
    by (simp add: resolve_def [of r "snd (resolve r q)"] map_of_None_iff [symmetric])
  then show ?thesis
    by (auto simp: resolve_def [of r q] map_of_None_iff [symmetric] map_delete_def
        call_resolve_def)
qed

theorem resolve_spec_witness:
  "resolve \<lparr> result_id = ''b'', success = True, data = Some ''pong'', error = None \<rparr>
     (run [Heartbeat 0 None None, Enqueue 1 1 ''a'' ''ping'' (), Dequeue]
        (new_CommandQueue default_config))
     = (False, run [Heartbeat 0 None None, Enqueue 1 1 ''a'' ''ping'' (), Dequeue]
        (new_CommandQueue default_config))
   \<and> fst (resolve \<lparr> result_id = ''a'', success = True, data = Some ''pong'', error = None \<rparr>
       (run [Heartbeat 0 None None, Enqueue 1 1 ''a'' ''ping'' (), Dequeue]
          (new_CommandQueue default_config)))
   \<and> pendingCommands
        (snd (resolve \<lparr> result_id = ''a'', success = True, data = Some ''pong'', error = None \<rparr>
          (run [Heartbeat 0 None None, Enqueue 1 1 ''a'' ''ping'' (), Dequeue]
            (new_CommandQueue default_config)))) = []
   \<and> promises
        (snd (resolve \<lparr> result_id = ''a'', success = True, data = Some ''pong'', error = None \<rparr>
          (run [Heartbeat 0 None None, Enqueue 1 1 ''a'' ''ping'' (), Dequeue]
            (new_CommandQueue default_config)))) 0
      = [Resolved \<lparr> result_id = ''a'', success = True, data = Some ''pong'', error = None \<rparr>]
   \<and> \<not> fst (resolve \<lparr> result_id = ''a'', success = True, data = Some ''pong'', error = None \<rparr>
        (snd (resolve \<lparr> result_id = ''a'', success = True, data = Some ''pong'', error = None \<rparr>
          (run [Heartbeat 0 None None, Enqueue 1 1 ''a'' ''ping'' (), Dequeue]
            (new_CommandQueue default_config)))))"
proof -
  define q :: "(unit, string) CommandQueue"
    where "q = run [Heartbeat 0 None None, Enqueue 1 1 ''a'' ''ping'' (), Dequeue]
        (new_CommandQueue default_config)"
  define c :: "unit PendingCommand"
    where "c = \<lparr> cmd_id = ''a'', cmd_type = ''ping'', cmd_params = (), cmd_promise = 0,
      createdAt = 1 \<rparr>"
  define ra :: "string CommandResult"
    where "ra = \<lparr> result_id = ''a'', success = True, data = Some ''pong'', error = None \<rparr>"
  define rb :: "string CommandResult"
    where "rb = \<lparr> result_id = ''b'', success = True, data = Some ''pong'', error = None \<rparr>"
  have pend: "pendingCommands q = [(''a'', c)]" and prom: "promises q 0 = []"
    by (simp_all add: q_def c_def queue_eval)
  have absent: "result_id rb \<notin> fst ` set (pendingCommands q)"
    by (simp add: pend rb_def)
  have present: "map_of (pendingCommands q) (result_id ra) = Some c"
    by (simp add: pend ra_def)
  from absent resolve_spec [of rb q]
  have 1: "resolve rb q = (False, q)"
    by simp
  from present resolve_spec [of ra q _ c]
  have 2: "fst (resolve ra q)"
    and 3: "pendingCommands (snd (resolve ra q)) = []"
    and 4: "promises (snd (resolve ra q)) 0 = [Resolved ra]"
    by (simp_all add: pend prom ra_def c_def)
  from resolve_spec [of ra q]
  have 5: "\<not> fst (resolve ra (snd (resolve ra q)))"
    by simp
  from 1 2 3 4 5 show ?thesis
    unfolding q_def ra_def rb_def by blast
qed

text \<open>
  Claim C10. For every matched result, whatever its \<open>success\<close> flag, \<open>resolve(result)\<close>
  calls the \<open>resolve\<close> callback of the command with the whole result and adds no rejection
  to any promise. Along every history the only errors passed to a \<open>reject\<close> callback are the
  two timeout errors of the sweep and the shutdown error, and the only error of a promise
  that \<open>enqueue\<close> returns rejected is the not-connected error.
\<close>

theorem resolve_uses_resolve_handle:
  "(map_of (pendingCommands q) (result_id r) = Some cmd \<longrightarrow>
      promises (snd (resolve r q)) (cmd_promise cmd)
        = promises q (cmd_promise cmd) @ [Resolved r])
   \<and> (\<forall>p e. Rejected e \<in> set (promises (snd (resolve r q)) p) \<longrightarrow>
        Rejected e \<in> set (promises q p))
   \<and> (\<forall>p e. Rejected e \<in> set (promises (run es (new_CommandQueue cfg)) p) \<longrightarrow>
        e = shutting_down
        \<or> (\<exists>ty. e = never_picked_up ty (commandTimeoutMs cfg))
        \<or> (\<exists>ty. e = no_result_returned ty (commandTimeoutMs cfg)))
   \<and> (\<forall>e. fst (enqueue now\<^sub>c now uuid ty params q) = Inl e \<longrightarrow> e = not_connected)"
proof -
  have 1: "map_of (pendingCommands q) (result_id r) = Some cmd \<longrightarrow>
      promises (snd (resolve r q)) (cmd_promise cmd)
        = promises q (cmd_promise cmd) @ [Resolved r]"
    by (simp add: resolve_def call_resolve_def)
  have 2: "\<forall>p e. Rejected e \<in> set (promises (snd (resolve r q)) p) \<longrightarrow>
        Rejected e \<in> set (promises q p)"
    by (auto simp: resolve_def call_resolve_def split: option.splits if_splits)
  have 3: "\<forall>p e. Rejected e \<in> set (promises (run es (new_CommandQueue cfg)) p) \<longrightarrow>
        e = shutting_down
        \<or> (\<exists>ty. e = never_picked_up ty (commandTimeoutMs cfg))
        \<or> (\<exists>ty. e = no_result_returned ty (commandTimeoutMs cfg))"
  proof (intro allI impI)
    fix p e
    assume "Rejected e \<in> set (promises (run es (new_CommandQueue cfg)) p)"
    from Rejected_run [OF this] show "e = shutting_down
        \<or> (\<exists>ty. e = never_picked_up ty (commandTimeoutMs cfg))
        \<or> (\<exists>ty. e = no_result_returned ty (commandTimeoutMs cfg))"
      by (simp add: new_CommandQueue_def timeout_or_shutdown_def)
  qed
  have 4: "\<forall>e. fst (enqueue now\<^sub>c now uuid ty params q) = Inl e \<longrightarrow> e = not_connected"
    by (simp add: enqueue_def Let_def)
  from 1 2 3 4 show ?thesis by blast
qed

theorem resolve_uses_resolve_handle_witness:
  "promises
     (snd (resolve \<lparr> result_id = ''a'', success = False, data = None,
                     error = Some ''Instance not found'' \<rparr>
        (run [Heartbeat 0 None None, Enqueue 1 1 ''a'' ''ping'' (), Dequeue]
           (new_CommandQueue default_config :: (unit, unit) CommandQueue)))) 0
   = [Resolved \<lparr> result_id = ''a'', success = False, data = None,
                 error = Some ''Instance not found'' \<rparr>]"
proof -
  define q :: "(unit, unit) CommandQueue"
    where "q = run [Heartbeat 0 None None, Enqueue 1 1 ''a'' ''ping'' (), Dequeue]
        (new_CommandQueue default_config)"
  define c :: "unit PendingCommand"
    where "c = \<lparr> cmd_id = ''a'', cmd_type = ''ping'', cmd_params = (), cmd_promise = 0,
      createdAt = 1 \<rparr>"
  define r :: "unit CommandResult"
    where "r = \<lparr> result_id = ''a'', success = False, data = None,
      error = Some ''Instance not found'' \<rparr>"
  have pend: "pendingCommands q = [(''a'', c)]" and prom: "promises q 0 = []"
    by (simp_all add: q_def c_def queue_eval)
  have present: "map_of (pendingCommands q) (result_id r) = Some c"
    by (simp add: pend r_def)
  from present resolve_uses_resolve_handle [of q r c]
  have "promises (snd (resolve r q)) (cmd_promise c) = promises q (cmd_promise c) @ [Resolved r]"
    by blast
  then have "promises (snd (resolve r q)) 0 = [Resolved r]"
    by (simp add: prom c_def)
  then show ?thesis
    unfolding q_def r_def .
qed

subsection \<open>Shutdown\<close>

text \<open>
  Claim C8. \<open>shutdown()\<close> of a reachable queue clears the timer, which no later operation
  registers again, so that later ticks do nothing; it rejects every command of the waiting
  queue and of the pending map once, with the shutdown error, calls no other resolving
  function, and leaves both collections empty.
\<close>

theorem shutdown_spec:
  assumes "distinct (uuids es)" and "q = run es (new_CommandQueue cfg)"
  shows "\<not> timeoutInterval (shutdown q)
    \<and> (\<forall>es'. \<not> timeoutInterval (run es' (shutdown q)))
    \<and> (\<forall>now. exec (Tick now) (shutdown q) = shutdown q)
    \<and> waitingQueue (shutdown q) = []
    \<and> pendingCommands (shutdown q) = []
    \<and> (\<forall>c\<in>set (waitingQueue q) \<union> snd ` set (pendingCommands q).
          promises (shutdown q) (cmd_promise c) = [Rejected shutting_down])
    \<and> (\<forall>p. waitingCount p q + pendingCount p q = 0 \<longrightarrow>
          promises (shutdown q) p = promises q p)"
proof -
  from assms have acc: "accounted q"
    using queue_inv_reachable [of es cfg] by (simp add: queue_inv_def)
  have 1: "\<not> timeoutInterval (shutdown q)" by simp
  then have 2: "\<forall>es'. \<not> timeoutInterval (run es' (shutdown q))"
    by (simp add: timeoutInterval_run)
  have 3: "\<forall>now. exec (Tick now) (shutdown q) = shutdown q" by simp
  have 4: "\<forall>c\<in>set (waitingQueue q) \<union> snd ` set (pendingCommands q).
          promises (shutdown q) (cmd_promise c) = [Rejected shutting_down]"
  proof
    fix c assume "c \<in> set (waitingQueue q) \<union> snd ` set (pendingCommands q)"
    then show "promises (shutdown q) (cmd_promise c) = [Rejected shutting_down]"
    proof
      assume "c \<in> set (waitingQueue q)"
      from held_waiting [OF acc this] show ?thesis
        by (simp add: promises_shutdown)
    next
      assume "c \<in> snd ` set (pendingCommands q)"
      then obtain e where e: "e \<in> set (pendingCommands q)" and c: "c = snd e" by auto
      from held_pending [OF acc e] show ?thesis
        by (simp add: promises_shutdown c)
    qed
  qed
  have 5: "\<forall>p. waitingCount p q + pendingCount p q = 0 \<longrightarrow>
          promises (shutdown q) p = promises q p"
    by (simp add: promises_shutdown waitingCount_def pendingCount_def)
  from 1 2 3 4 5 show ?thesis by simp
qed

theorem shutdown_spec_witness:
  "promises (shutdown (run two_open_commands (new_CommandQueue default_config))) 0
       = [Rejected shutting_down]
   \<and> promises (shutdown (run two_open_commands (new_CommandQueue default_config))) 1
       = [Rejected shutting_down]
   \<and> waitingQueue (shutdown (run two_open_commands (new_CommandQueue default_config))) = []
   \<and> pendingCommands (shutdown (run two_open_commands (new_CommandQueue default_config))) = []"
  using shutdown_spec [OF two_open_commands_uuids refl, where cfg = default_config]
  by (simp add: two_open_commands_state)

end
